theory Spec2Isabelle
  imports Main "HOL-Library.Word"
begin

unbundle bit_operations_syntax

section \<open>Python values\<close>

text \<open>
  A Python \<open>str\<close> is a sequence of Unicode code points; it is modelled as the list of
  their numbers, so that \<open>len\<close> counts code points and \<open>encode("utf-8")\<close> is a separate
  step producing bytes.  A \<open>list[int]\<close> and a \<open>bytes\<close> object are lists of unbounded
  integers.  \<open>str_of\<close> reads an ASCII literal as such a string.
\<close>

type_synonym pystr = "nat list"

definition str_of :: "string \<Rightarrow> pystr" where
  "str_of s = map of_char s"

section \<open>utils/url\_utils.py\<close>

text \<open>\<open>str.find(ch)\<close> for a one-character needle: the lowest index, or -1.\<close>

fun str_find :: "pystr \<Rightarrow> nat \<Rightarrow> int" where
  "str_find [] c = -1"
| "str_find (x # xs) c =
     (if x = c then 0
      else (let r = str_find xs c in if r = -1 then -1 else r + 1))"

text \<open>The slice \<open>s[:n]\<close> for an index \<open>n\<close> that is not negative.\<close>

definition slice_to :: "'a list \<Rightarrow> int \<Rightarrow> 'a list" where
  "slice_to s n = take (nat n) s"

definition extract_api_path :: "pystr \<Rightarrow> pystr" where
  "extract_api_path uri_with_data =
     (let brace_pos = str_find uri_with_data 123;
          question_pos = str_find uri_with_data 63
      in if brace_pos \<noteq> -1 \<and> question_pos \<noteq> -1
           then slice_to uri_with_data (min brace_pos question_pos)
         else if brace_pos \<noteq> -1 then slice_to uri_with_data brace_pos
         else if question_pos \<noteq> -1 then slice_to uri_with_data question_pos
         else uri_with_data)"

text \<open>The exceptions that the modelled code can raise, as values.\<close>

datatype error = ValueError | IndexError | StructError | UnicodeEncodeError | OverflowError

section \<open>config/config.py\<close>

text \<open>
  The fields of the frozen dataclass \<open>CryptoConfig\<close> that the modelled code reads, with
  their declared defaults.  Lengths are natural numbers.  The ranges handed to the random
  generator of the payload builder are not listed: that generator is not part of the
  sources, and its draws are inputs of the model.
\<close>

record CryptoConfig =
  MAX_32BIT :: int
  VERSION_BYTES :: "int list"
  A1_LENGTH :: nat
  APP_ID_LENGTH :: nat
  MD5_XOR_LENGTH :: nat
  A3_PREFIX :: "int list"
  TIMESTAMP_LE_LENGTH :: nat
  SESSION_WINDOW_PROPS_INIT_MIN :: int
  SESSION_WINDOW_PROPS_INIT_MAX :: int
  SESSION_SEQUENCE_INIT_MIN :: int
  SESSION_SEQUENCE_INIT_MAX :: int
  SESSION_SEQUENCE_STEP_MIN :: int
  SESSION_SEQUENCE_STEP_MAX :: int
  SESSION_WINDOW_PROPS_STEP_MIN :: int
  SESSION_WINDOW_PROPS_STEP_MAX :: int
  ENV_TABLE :: "int list"
  ENV_CHECKS_DEFAULT :: "int list"
  HASH_IV :: "int \<times> int \<times> int \<times> int"

definition default_config :: CryptoConfig where
  "default_config =
     \<lparr> MAX_32BIT = 0xFFFFFFFF,
       VERSION_BYTES = [121, 104, 96, 41],
       A1_LENGTH = 52,
       APP_ID_LENGTH = 10,
       MD5_XOR_LENGTH = 8,
       A3_PREFIX = [2, 97, 51, 16],
       TIMESTAMP_LE_LENGTH = 8,
       SESSION_WINDOW_PROPS_INIT_MIN = 1000,
       SESSION_WINDOW_PROPS_INIT_MAX = 2000,
       SESSION_SEQUENCE_INIT_MIN = 15,
       SESSION_SEQUENCE_INIT_MAX = 17,
       SESSION_SEQUENCE_STEP_MIN = 0,
       SESSION_SEQUENCE_STEP_MAX = 1,
       SESSION_WINDOW_PROPS_STEP_MIN = 1,
       SESSION_WINDOW_PROPS_STEP_MAX = 10,
       ENV_TABLE = [115, 248, 83, 102, 103, 201, 181, 131, 99, 94, 4, 68, 250, 132, 21],
       ENV_CHECKS_DEFAULT = [0, 1, 18, 1, 0, 0, 0, 0, 0, 0, 3, 0, 0, 0, 0],
       HASH_IV = (1831565813, 461845907, 2246822507, 3266489909) \<rparr>"

section \<open>session.py\<close>

record SignState =
  page_load_timestamp :: int
  sequence_value :: int
  window_props_length :: int
  uri_length :: int

text \<open>
  \<open>random.randint(a, b)\<close>: an integer of the inclusive range, \<open>ValueError\<close> when the range
  is empty.  The third argument is the entropy the call consumes; as it ranges over the
  naturals the result ranges over exactly the integers from \<open>a\<close> to \<open>b\<close>.
\<close>

definition randint :: "int \<Rightarrow> int \<Rightarrow> nat \<Rightarrow> error + int" where
  "randint a b r = (if b < a then Inl ValueError else Inr (a + int r mod (b - a + 1)))"

text \<open>The attributes of a \<open>SessionManager\<close> object.\<close>

record SessionManager =
  sm_config :: CryptoConfig
  sm_page_load_timestamp :: int
  sm_sequence_value :: int
  sm_window_props_length :: int

text \<open>
  The constructor.  \<open>now_ms\<close> is the value of \<open>int(time.time() * 1000)\<close> at the call;
  \<open>r_seq\<close> and \<open>r_win\<close> feed the two draws.
\<close>

definition SessionManager_init ::
  "CryptoConfig \<Rightarrow> int \<Rightarrow> nat \<Rightarrow> nat \<Rightarrow> error + SessionManager" where
  "SessionManager_init cfg now_ms r_seq r_win =
     (case randint (SESSION_SEQUENCE_INIT_MIN cfg) (SESSION_SEQUENCE_INIT_MAX cfg) r_seq of
        Inl e \<Rightarrow> Inl e
      | Inr sv \<Rightarrow>
          (case randint (SESSION_WINDOW_PROPS_INIT_MIN cfg)
                        (SESSION_WINDOW_PROPS_INIT_MAX cfg) r_win of
             Inl e \<Rightarrow> Inl e
           | Inr wp \<Rightarrow>
               Inr \<lparr> sm_config = cfg, sm_page_load_timestamp = now_ms,
                     sm_sequence_value = sv, sm_window_props_length = wp \<rparr>))"

text \<open>
  A method mutates the object and returns or raises: the model gives the outcome together
  with the object as the call leaves it.  In \<open>update_state\<close> the first counter is already
  advanced when the second draw raises.
\<close>

definition update_state ::
  "SessionManager \<Rightarrow> nat \<Rightarrow> nat \<Rightarrow> (error + unit) \<times> SessionManager" where
  "update_state self r_seq r_win =
     (case randint (SESSION_SEQUENCE_STEP_MIN (sm_config self))
                   (SESSION_SEQUENCE_STEP_MAX (sm_config self)) r_seq of
        Inl e \<Rightarrow> (Inl e, self)
      | Inr d_seq \<Rightarrow>
          (let self1 = self\<lparr> sm_sequence_value := sm_sequence_value self + d_seq \<rparr>
           in case randint (SESSION_WINDOW_PROPS_STEP_MIN (sm_config self1))
                           (SESSION_WINDOW_PROPS_STEP_MAX (sm_config self1)) r_win of
                Inl e \<Rightarrow> (Inl e, self1)
              | Inr d_win \<Rightarrow>
                  (Inr (),
                   self1\<lparr> sm_window_props_length := sm_window_props_length self1 + d_win \<rparr>)))"

definition get_current_state ::
  "SessionManager \<Rightarrow> pystr \<Rightarrow> nat \<Rightarrow> nat \<Rightarrow> (error + SignState) \<times> SessionManager" where
  "get_current_state self uri r_seq r_win =
     (case update_state self r_seq r_win of
        (Inl e, self') \<Rightarrow> (Inl e, self')
      | (Inr _, self') \<Rightarrow>
          (Inr \<lparr> page_load_timestamp = sm_page_load_timestamp self',
                 sequence_value = sm_sequence_value self',
                 window_props_length = sm_window_props_length self',
                 uri_length = int (length uri) \<rparr>,
           self'))"

text \<open>
  Successive calls on one object: each call is given its \<open>uri\<close> and the entropy of its two
  draws, and the outcomes are listed in call order.  \<open>returned\<close> keeps the snapshots of
  the calls that returned.
\<close>

fun successive_calls ::
  "SessionManager \<Rightarrow> (pystr \<times> nat \<times> nat) list \<Rightarrow> (error + SignState) list" where
  "successive_calls self [] = []"
| "successive_calls self ((uri, r_seq, r_win) # calls) =
     (case get_current_state self uri r_seq r_win of
        (res, self') \<Rightarrow> res # successive_calls self' calls)"

fun returned :: "(error + 'a) list \<Rightarrow> 'a list" where
  "returned [] = []"
| "returned (Inl e # rs) = returned rs"
| "returned (Inr s # rs) = s # returned rs"

section \<open>Library functions used by the payload builder\<close>

text \<open>
  \<open>str.encode("utf-8")\<close>.  A surrogate code point cannot be encoded and raises; a code
  point above \<open>0x10FFFF\<close> cannot occur in a Python string and is treated the same way.
\<close>

definition utf8_char :: "nat \<Rightarrow> error + int list" where
  "utf8_char c =
     (if c < 0x80 then Inr [int c]
      else if c < 0x800 then Inr [0xC0 + int (c div 64), 0x80 + int (c mod 64)]
      else if 0xD800 \<le> c \<and> c < 0xE000 then Inl UnicodeEncodeError
      else if c < 0x10000 then
        Inr [0xE0 + int (c div 4096), 0x80 + int (c div 64 mod 64), 0x80 + int (c mod 64)]
      else if c < 0x110000 then
        Inr [0xF0 + int (c div 262144), 0x80 + int (c div 4096 mod 64),
             0x80 + int (c div 64 mod 64), 0x80 + int (c mod 64)]
      else Inl UnicodeEncodeError)"

fun encode_utf8 :: "pystr \<Rightarrow> error + int list" where
  "encode_utf8 [] = Inr []"
| "encode_utf8 (c # cs) =
     (case utf8_char c of
        Inl e \<Rightarrow> Inl e
      | Inr bs \<Rightarrow> (case encode_utf8 cs of Inl e \<Rightarrow> Inl e | Inr rest \<Rightarrow> Inr (bs @ rest)))"

text \<open>The value of a hexadecimal digit, in either case.\<close>

definition hex_digit_value :: "nat \<Rightarrow> int option" where
  "hex_digit_value c =
     (if 48 \<le> c \<and> c \<le> 57 then Some (int c - 48)
      else if 97 \<le> c \<and> c \<le> 102 then Some (int c - 87)
      else if 65 \<le> c \<and> c \<le> 70 then Some (int c - 55)
      else None)"

definition is_ascii_space :: "nat \<Rightarrow> bool" where
  "is_ascii_space c \<longleftrightarrow> c = 32 \<or> (9 \<le> c \<and> c \<le> 13)"

text \<open>
  \<open>bytes.fromhex\<close>: two hexadecimal digits per byte; ASCII whitespace is skipped before a
  byte, not between its two digits; anything else raises \<open>ValueError\<close>.
\<close>

fun bytes_fromhex :: "pystr \<Rightarrow> error + int list" where
  "bytes_fromhex [] = Inr []"
| "bytes_fromhex [c] =
     (if is_ascii_space c then Inr [] else Inl ValueError)"
| "bytes_fromhex (c # d # ds) =
     (if is_ascii_space c then bytes_fromhex (d # ds)
      else (case hex_digit_value c of
              None \<Rightarrow> Inl ValueError
            | Some hi \<Rightarrow>
                (case hex_digit_value d of
                   None \<Rightarrow> Inl ValueError
                 | Some lo \<Rightarrow>
                     (case bytes_fromhex ds of
                        Inl e \<Rightarrow> Inl e
                      | Inr rest \<Rightarrow> Inr ((16 * hi + lo) # rest)))))"

text \<open>
  \<open>int(s, 16)\<close> on a string of hexadecimal digits.  The signs, prefixes, underscores and
  surrounding blanks that \<open>int\<close> also accepts do not occur in the slices of a digest the
  builder passes, and raise here.
\<close>

fun int_base16_from :: "int \<Rightarrow> pystr \<Rightarrow> error + int" where
  "int_base16_from acc [] = Inr acc"
| "int_base16_from acc (c # cs) =
     (case hex_digit_value c of
        None \<Rightarrow> Inl ValueError
      | Some d \<Rightarrow> int_base16_from (16 * acc + d) cs)"

definition int_base16 :: "pystr \<Rightarrow> error + int" where
  "int_base16 s = (if s = [] then Inl ValueError else int_base16_from 0 s)"

text \<open>A list comprehension whose element expression can raise.\<close>

fun map_err :: "('a \<Rightarrow> error + 'b) \<Rightarrow> 'a list \<Rightarrow> error + 'b list" where
  "map_err f [] = Inr []"
| "map_err f (x # xs) =
     (case f x of
        Inl e \<Rightarrow> Inl e
      | Inr y \<Rightarrow> (case map_err f xs of Inl e \<Rightarrow> Inl e | Inr ys \<Rightarrow> Inr (y # ys)))"

text \<open>The slice \<open>xs[a:b]\<close> for indices that are not negative, and \<open>bytes.ljust\<close>.\<close>

definition py_slice :: "'a list \<Rightarrow> nat \<Rightarrow> nat \<Rightarrow> 'a list" where
  "py_slice xs a b = take (b - a) (drop a xs)"

definition ljust :: "'a list \<Rightarrow> nat \<Rightarrow> 'a \<Rightarrow> 'a list" where
  "ljust bs width fill = bs @ replicate (width - length bs) fill"

text \<open>\<open>bytes(xs)\<close> of a list of integers: every element must be in \<open>range(256)\<close>.\<close>

definition bytes_of_list :: "int list \<Rightarrow> error + int list" where
  "bytes_of_list xs =
     (if list_all (\<lambda>b. 0 \<le> b \<and> b < 256) xs then Inr xs else Inl ValueError)"

text \<open>The little-endian unsigned reading of a byte sequence.\<close>

fun le_value :: "int list \<Rightarrow> int" where
  "le_value [] = 0"
| "le_value (b # bs) = b + 256 * le_value bs"

text \<open>\<open>struct.unpack("<II", b)\<close>: exactly eight bytes, two little-endian 32-bit words.\<close>

definition unpack_II :: "int list \<Rightarrow> error + int \<times> int" where
  "unpack_II b =
     (if length b \<noteq> 8 then Inl StructError
      else Inr (le_value (take 4 b), le_value (drop 4 b)))"

section \<open>core/crypto.py\<close>

fun int_to_le_bytes :: "int \<Rightarrow> nat \<Rightarrow> int list" where
  "int_to_le_bytes val 0 = []"
| "int_to_le_bytes val (Suc n) = (val AND 0xFF) # int_to_le_bytes (drop_bit 8 val) n"

text \<open>
  \<open>_rotate_left\<close>.  Python's shifts are those of unbounded integers.  Every call passes a
  literal count between 7 and 19, so \<open>32 - n\<close> is never negative.
\<close>

definition rotate_left :: "CryptoConfig \<Rightarrow> int \<Rightarrow> nat \<Rightarrow> int" where
  "rotate_left cfg val n = (push_bit n val OR drop_bit (32 - n) val) AND MAX_32BIT cfg"

type_synonym hash_state = "int \<times> int \<times> int \<times> int"

text \<open>The body of the block loop of \<open>_custom_hash_v2\<close>, after the unpacking.\<close>

definition hash_round :: "CryptoConfig \<Rightarrow> hash_state \<Rightarrow> int \<Rightarrow> int \<Rightarrow> hash_state" where
  "hash_round cfg st v0 v1 =
     (case st of (s0, s1, s2, s3) \<Rightarrow>
        (let s0 = rotate_left cfg (((s0 + v0) AND MAX_32BIT cfg) XOR s2) 7;
             s1 = rotate_left cfg (((v0 XOR s1) + s3) AND MAX_32BIT cfg) 11;
             s2 = rotate_left cfg (((s2 + v1) AND MAX_32BIT cfg) XOR s0) 13;
             s3 = rotate_left cfg (((s3 XOR v1) + s1) AND MAX_32BIT cfg) 17
         in (s0, s1, s2, s3)))"

text \<open>The loop \<open>for i in range(length // 8)\<close>, over the list of its indices.\<close>

fun hash_loop :: "CryptoConfig \<Rightarrow> int list \<Rightarrow> nat list \<Rightarrow> hash_state \<Rightarrow> error + hash_state" where
  "hash_loop cfg input_bytes [] st = Inr st"
| "hash_loop cfg input_bytes (i # is) st =
     (case bytes_of_list (py_slice input_bytes (i * 8) ((i + 1) * 8)) of
        Inl e \<Rightarrow> Inl e
      | Inr b \<Rightarrow>
          (case unpack_II b of
             Inl e \<Rightarrow> Inl e
           | Inr (v0, v1) \<Rightarrow> hash_loop cfg input_bytes is (hash_round cfg st v0 v1)))"

text \<open>The statements of \<open>_custom_hash_v2\<close> after the loop.\<close>

definition hash_finish :: "CryptoConfig \<Rightarrow> int \<Rightarrow> hash_state \<Rightarrow> int list" where
  "hash_finish cfg len st =
     (case st of (s0, s1, s2, s3) \<Rightarrow>
        (let t0 = s0 XOR len;
             t1 = s1 XOR t0;
             t2 = (s2 + t1) AND MAX_32BIT cfg;
             t3 = s3 XOR t2;
             rot_t0 = rotate_left cfg t0 9;
             rot_t1 = rotate_left cfg t1 13;
             rot_t2 = rotate_left cfg t2 17;
             rot_t3 = rotate_left cfg t3 19;
             s0 = (rot_t0 + rot_t2) AND MAX_32BIT cfg;
             s1 = rot_t1 XOR rot_t3;
             s2 = (rot_t2 + s0) AND MAX_32BIT cfg;
             s3 = rot_t3 XOR s1
         in concat (map (\<lambda>s. int_to_le_bytes s 4) [s0, s1, s2, s3])))"

definition custom_hash_v2 :: "CryptoConfig \<Rightarrow> int list \<Rightarrow> error + int list" where
  "custom_hash_v2 cfg input_bytes =
     (case HASH_IV cfg of (s0, s1, s2, s3) \<Rightarrow>
        (let len = int (length input_bytes);
             s0 = s0 XOR len;
             s1 = s1 XOR push_bit 8 len;
             s2 = s2 XOR push_bit 16 len;
             s3 = s3 XOR push_bit 24 len
         in case hash_loop cfg input_bytes [0 ..< length input_bytes div 8] (s0, s1, s2, s3) of
              Inl e \<Rightarrow> Inl e
            | Inr st \<Rightarrow> Inr (hash_finish cfg len st)))"

subsection \<open>hashlib.md5\<close>

text \<open>
  The MD5 digest of RFC 1321 on 32-bit words, and \<open>hexdigest\<close>, its lower-case
  hexadecimal rendering.
\<close>

definition md5_K :: "32 word list" where
  "md5_K =
     [0xd76aa478, 0xe8c7b756, 0x242070db, 0xc1bdceee,
      0xf57c0faf, 0x4787c62a, 0xa8304613, 0xfd469501,
      0x698098d8, 0x8b44f7af, 0xffff5bb1, 0x895cd7be,
      0x6b901122, 0xfd987193, 0xa679438e, 0x49b40821,
      0xf61e2562, 0xc040b340, 0x265e5a51, 0xe9b6c7aa,
      0xd62f105d, 0x02441453, 0xd8a1e681, 0xe7d3fbc8,
      0x21e1cde6, 0xc33707d6, 0xf4d50d87, 0x455a14ed,
      0xa9e3e905, 0xfcefa3f8, 0x676f02d9, 0x8d2a4c8a,
      0xfffa3942, 0x8771f681, 0x6d9d6122, 0xfde5380c,
      0xa4beea44, 0x4bdecfa9, 0xf6bb4b60, 0xbebfbc70,
      0x289b7ec6, 0xeaa127fa, 0xd4ef3085, 0x04881d05,
      0xd9d4d039, 0xe6db99e5, 0x1fa27cf8, 0xc4ac5665,
      0xf4292244, 0x432aff97, 0xab9423a7, 0xfc93a039,
      0x655b59c3, 0x8f0ccc92, 0xffeff47d, 0x85845dd1,
      0x6fa87e4f, 0xfe2ce6e0, 0xa3014314, 0x4e0811a1,
      0xf7537e82, 0xbd3af235, 0x2ad7d2bb, 0xeb86d391]"

definition md5_shifts :: "nat list" where
  "md5_shifts =
     [7, 12, 17, 22, 7, 12, 17, 22, 7, 12, 17, 22, 7, 12, 17, 22,
      5, 9, 14, 20, 5, 9, 14, 20, 5, 9, 14, 20, 5, 9, 14, 20,
      4, 11, 16, 23, 4, 11, 16, 23, 4, 11, 16, 23, 4, 11, 16, 23,
      6, 10, 15, 21, 6, 10, 15, 21, 6, 10, 15, 21, 6, 10, 15, 21]"

type_synonym md5_state = "32 word \<times> 32 word \<times> 32 word \<times> 32 word"

definition md5_pad :: "int list \<Rightarrow> int list" where
  "md5_pad msg =
     msg @ [0x80] @ replicate ((119 - length msg mod 64) mod 64) 0
         @ int_to_le_bytes (8 * int (length msg)) 8"

definition md5_step :: "32 word list \<Rightarrow> md5_state \<Rightarrow> nat \<Rightarrow> md5_state" where
  "md5_step M st i =
     (case st of (a, b, c, d) \<Rightarrow>
        (let f = (if i < 16 then (b AND c) OR (NOT b AND d)
                  else if i < 32 then (d AND b) OR (NOT d AND c)
                  else if i < 48 then b XOR c XOR d
                  else c XOR (b OR NOT d));
             g = (if i < 16 then i
                  else if i < 32 then (5 * i + 1) mod 16
                  else if i < 48 then (3 * i + 5) mod 16
                  else (7 * i) mod 16)
         in (d, b + word_rotl (md5_shifts ! i) (a + f + md5_K ! i + M ! g), b, c)))"

definition md5_block :: "md5_state \<Rightarrow> int list \<Rightarrow> md5_state" where
  "md5_block st chunk =
     (let M = map (\<lambda>j. word_of_int (le_value (py_slice chunk (4 * j) (4 * j + 4)))) [0 ..< 16]
      in case st of (a0, b0, c0, d0) \<Rightarrow>
           (case foldl (md5_step M) st [0 ..< 64] of
              (a, b, c, d) \<Rightarrow> (a0 + a, b0 + b, c0 + c, d0 + d)))"

definition md5 :: "int list \<Rightarrow> int list" where
  "md5 msg =
     (let padded = md5_pad msg
      in case foldl (\<lambda>st k. md5_block st (py_slice padded (64 * k) (64 * k + 64)))
                (0x67452301, 0xefcdab89, 0x98badcfe, 0x10325476)
                [0 ..< length padded div 64] of
           (a, b, c, d) \<Rightarrow> concat (map (\<lambda>w. int_to_le_bytes (uint w) 4) [a, b, c, d]))"

definition hexdigest :: "int list \<Rightarrow> pystr" where
  "hexdigest digest =
     concat (map (\<lambda>b. [str_of ''0123456789abcdef'' ! nat (b div 16),
                        str_of ''0123456789abcdef'' ! nat (b mod 16)]) digest)"

subsection \<open>build\_payload\_array\<close>

text \<open>
  Floating point is not modelled.  A float enters the payload only through \<open>int(x)\<close>, and
  it is given by what that conversion sees: a finite float with the integer it truncates
  to, an infinity, for which \<open>int\<close> raises \<open>OverflowError\<close>, or a NaN, for which it raises
  \<open>ValueError\<close>.  A timestamp is given by the two floats the builder computes from it:
  \<open>times_1000\<close> is \<open>timestamp * 1000\<close> and \<open>minus_times_1000 k\<close> is
  \<open>(timestamp - k) * 1000\<close>; both products are infinite when they overflow.
\<close>

datatype pyfloat = Finite int | Infinite | Not_a_number

definition int_of_float :: "pyfloat \<Rightarrow> error + int" where
  "int_of_float x =
     (case x of Finite k \<Rightarrow> Inr k | Infinite \<Rightarrow> Inl OverflowError | Not_a_number \<Rightarrow> Inl ValueError)"

record float_time =
  times_1000 :: pyfloat
  minus_times_1000 :: "int \<Rightarrow> pyfloat"

text \<open>
  What one call takes from its surroundings: the clock reading \<open>time.time()\<close> and the
  results of the calls to the random generator, whose module is not among the sources:
  \<open>generate_random_int()\<close> and the three \<open>generate_random_byte_in_range\<close> draws.
\<close>

record environment =
  time_time :: float_time
  generate_random_int :: int
  time_offset_draw :: int
  sequence_value_draw :: int
  window_props_length_draw :: int

definition build_payload_array ::
  "CryptoConfig \<Rightarrow> environment \<Rightarrow> pystr \<Rightarrow> pystr \<Rightarrow> pystr \<Rightarrow> pystr
     \<Rightarrow> float_time option \<Rightarrow> SignState option \<Rightarrow> error + int list" where
  "build_payload_array cfg env hex_parameter a1_value app_identifier string_param
       timestamp sign_state =
     (let timestamp = (case timestamp of None \<Rightarrow> time_time env | Some t \<Rightarrow> t);
          seed = generate_random_int env;
          seed_byte = seed AND 0xFF;
          payload = VERSION_BYTES cfg;
          payload = payload @ int_to_le_bytes seed 4
      in case int_of_float (times_1000 timestamp) of
           Inl e \<Rightarrow> Inl e
         | Inr ts_ms \<Rightarrow>
        (let ts_bytes = int_to_le_bytes ts_ms (TIMESTAMP_LE_LENGTH cfg);
             payload = payload @ ts_bytes
      in case (case sign_state of
                 Some st \<Rightarrow>
                   Inr (payload
                        @ int_to_le_bytes (page_load_timestamp st) (TIMESTAMP_LE_LENGTH cfg)
                        @ int_to_le_bytes (sequence_value st) 4
                        @ int_to_le_bytes (window_props_length st) 4
                        @ int_to_le_bytes (uri_length st) 4)
               | None \<Rightarrow>
                   (let time_offset = time_offset_draw env
                    in case int_of_float (minus_times_1000 timestamp time_offset) of
                         Inl e \<Rightarrow> Inl e
                       | Inr effective_ts_ms \<Rightarrow>
                   (let sequence_value = sequence_value_draw env;
                        window_props_length = window_props_length_draw env
                    in case encode_utf8 string_param of
                         Inl e \<Rightarrow> Inl e
                       | Inr string_bytes \<Rightarrow>
                           Inr (payload
                                @ int_to_le_bytes effective_ts_ms (TIMESTAMP_LE_LENGTH cfg)
                                @ int_to_le_bytes sequence_value 4
                                @ int_to_le_bytes window_props_length 4
                                @ int_to_le_bytes (int (length string_bytes)) 4)))) of
           Inl e \<Rightarrow> Inl e
         | Inr payload \<Rightarrow>
        (case bytes_fromhex hex_parameter of
           Inl e \<Rightarrow> Inl e
         | Inr md5_bytes \<Rightarrow>
        if length md5_bytes < MD5_XOR_LENGTH cfg then Inl IndexError
        else
        (let payload = payload
               @ map (\<lambda>i. (md5_bytes ! i) XOR seed_byte) [0 ..< MD5_XOR_LENGTH cfg]
         in case encode_utf8 a1_value of
              Inl e \<Rightarrow> Inl e
            | Inr a1_encoded \<Rightarrow>
        (let a1_bytes = ljust (take (A1_LENGTH cfg) a1_encoded) (A1_LENGTH cfg) 0;
             payload = payload @ [int (length a1_bytes)];
             payload = payload @ a1_bytes
         in case encode_utf8 app_identifier of
              Inl e \<Rightarrow> Inl e
            | Inr app_encoded \<Rightarrow>
        (let app_bytes = ljust (take (APP_ID_LENGTH cfg) app_encoded) (APP_ID_LENGTH cfg) 0;
             payload = payload @ [int (length app_bytes)];
             payload = payload @ app_bytes
         in if length (ENV_TABLE cfg) < 15 \<or> length (ENV_CHECKS_DEFAULT cfg) < 15
            then Inl IndexError
            else
        (let part11 = [1, seed_byte XOR (ENV_TABLE cfg ! 0)];
             part11 = part11
               @ map (\<lambda>i. (ENV_TABLE cfg ! i) XOR (ENV_CHECKS_DEFAULT cfg ! i)) [1 ..< 15];
             payload = payload @ part11;
             api_path = extract_api_path string_param
         in case encode_utf8 api_path of
              Inl e \<Rightarrow> Inl e
            | Inr api_path_bytes \<Rightarrow>
        (let hex_md5 = hexdigest (md5 api_path_bytes)
         in case map_err (\<lambda>i. int_base16 (py_slice hex_md5 i (i + 2)))
                   (map (\<lambda>k. 2 * k) [0 ..< 16]) of
              Inl e \<Rightarrow> Inl e
            | Inr md5_path_bytes \<Rightarrow>
        (case custom_hash_v2 cfg (ts_bytes @ md5_path_bytes) of
           Inl e \<Rightarrow> Inl e
         | Inr digest \<Rightarrow>
             Inr (payload @ A3_PREFIX cfg @ map (\<lambda>b. b XOR seed_byte) digest))))))))))"

section \<open>The digest mixer as specified\<close>

text \<open>
  The algorithm of the specification, written on 32-bit words so that every value of the
  state is a 32-bit word and every addition wraps at \<open>2^32\<close>.  \<open>spec_init\<close> is steps 1
  and 2 (the initialization vector with the length folded in, each result a 32-bit word),
  \<open>spec_round\<close> is the update of step 3 for one block with its words \<open>v0\<close> and \<open>v1\<close>,
  the four assignments made in sequence, \<open>spec_finish\<close> is steps 4 to 6 and
  \<open>spec_digest_mixer\<close> runs the seven steps on a byte list.
\<close>

type_synonym mixer_state = "32 word \<times> 32 word \<times> 32 word \<times> 32 word"

definition rotl32 :: "32 word \<Rightarrow> nat \<Rightarrow> 32 word" where
  "rotl32 w n = word_rotl n w"

definition spec_init :: "nat \<Rightarrow> mixer_state" where
  "spec_init len =
     (1831565813 XOR of_nat len,
      461845907 XOR push_bit 8 (of_nat len),
      2246822507 XOR push_bit 16 (of_nat len),
      3266489909 XOR push_bit 24 (of_nat len))"

definition spec_round :: "mixer_state \<Rightarrow> 32 word \<Rightarrow> 32 word \<Rightarrow> mixer_state" where
  "spec_round st v0 v1 =
     (case st of (s0, s1, s2, s3) \<Rightarrow>
        (let s0 = rotl32 ((s0 + v0) XOR s2) 7;
             s1 = rotl32 ((v0 XOR s1) + s3) 11;
             s2 = rotl32 ((s2 + v1) XOR s0) 13;
             s3 = rotl32 ((s3 XOR v1) + s1) 17
         in (s0, s1, s2, s3)))"

text \<open>The two little-endian 32-bit words of an 8-byte block, taken into the state.\<close>

definition spec_absorb :: "mixer_state \<Rightarrow> int list \<Rightarrow> mixer_state" where
  "spec_absorb st block =
     spec_round st (word_of_int (le_value (take 4 block))) (word_of_int (le_value (drop 4 block)))"

text \<open>The consecutive 8-byte blocks of the input.\<close>

definition blocks_of :: "int list \<Rightarrow> int list list" where
  "blocks_of xs = map (\<lambda>i. take 8 (drop (i * 8) xs)) [0 ..< length xs div 8]"

definition spec_finish :: "32 word \<Rightarrow> mixer_state \<Rightarrow> mixer_state" where
  "spec_finish len st =
     (case st of (s0, s1, s2, s3) \<Rightarrow>
        (let t0 = s0 XOR len;
             t1 = s1 XOR t0;
             t2 = s2 + t1;
             t3 = s3 XOR t2;
             rt0 = rotl32 t0 9;
             rt1 = rotl32 t1 13;
             rt2 = rotl32 t2 17;
             rt3 = rotl32 t3 19;
             s0 = rt0 + rt2;
             s1 = rt1 XOR rt3;
             s2 = rt2 + s0;
             s3 = rt3 XOR s1
         in (s0, s1, s2, s3)))"

definition spec_output :: "mixer_state \<Rightarrow> int list" where
  "spec_output st =
     (case st of (s0, s1, s2, s3) \<Rightarrow>
        int_to_le_bytes (uint s0) 4 @ int_to_le_bytes (uint s1) 4
          @ int_to_le_bytes (uint s2) 4 @ int_to_le_bytes (uint s3) 4)"

definition spec_digest_mixer :: "int list \<Rightarrow> int list" where
  "spec_digest_mixer xs =
     spec_output (spec_finish (of_nat (length xs))
       (foldl spec_absorb (spec_init (length xs)) (blocks_of xs)))"

text \<open>The state of the code that holds the four words of a state of the specification.\<close>

definition state_ints :: "mixer_state \<Rightarrow> hash_state" where
  "state_ints st = (case st of (s0, s1, s2, s3) \<Rightarrow> (uint s0, uint s1, uint s2, uint s3))"

section \<open>Example inputs\<close>

text \<open>
  One environment and one digest string, used where a statement is instantiated at a
  concrete call: a clock reading, a 32-bit seed and three draws inside the configured
  ranges, and the MD5 digest of a request in hexadecimal.
\<close>

definition example_env :: environment where
  "example_env =
     \<lparr> time_time = \<lparr> times_1000 = Finite 1700000000123,
                     minus_times_1000 = (\<lambda>k. Finite (1700000000123 - 1000 * k)) \<rparr>,
       generate_random_int = 305419896,
       time_offset_draw = 20,
       sequence_value_draw = 30,
       window_props_length_draw = 1100 \<rparr>"

definition example_md5_hex :: pystr where
  "example_md5_hex = str_of ''e953e48a61929a8cdb7c31d7886c6a55''"

section \<open>Path extraction\<close>

lemma str_find_ge: "- 1 \<le> str_find s c"
  by (induction s) (auto simp: Let_def)

lemma str_find_notin: "c \<notin> set s \<Longrightarrow> str_find s c = - 1"
  by (induction s) (auto simp: Let_def)

lemma str_find_in:
  "c \<in> set s \<Longrightarrow> str_find s c = int (length (takeWhile (\<lambda>x. x \<noteq> c) s))"
proof (induction s)
  case Nil
  then show ?case by simp
next
  case (Cons x xs)
  show ?case
  proof (cases "x = c")
    case True
    then show ?thesis by simp
  next
    case False
    with Cons.prems have "c \<in> set xs" by simp
    with Cons.IH False show ?thesis by (simp add: Let_def)
  qed
qed

lemma str_find_neg_iff: "str_find s c = - 1 \<longleftrightarrow> c \<notin> set s"
proof
  assume h: "str_find s c = - 1"
  show "c \<notin> set s"
  proof
    assume "c \<in> set s"
    then have "0 \<le> str_find s c" by (simp add: str_find_in)
    with h show False by simp
  qed
next
  assume "c \<notin> set s"
  then show "str_find s c = - 1" by (rule str_find_notin)
qed

lemma take_length_takeWhile: "take (length (takeWhile P s)) s = takeWhile P s"
  by (induction s) auto

lemma take_find_eq:
  "c \<in> set s \<Longrightarrow> slice_to s (str_find s c) = takeWhile (\<lambda>x. x \<noteq> c) s"
  by (simp add: slice_to_def str_find_in take_length_takeWhile)

lemma nat_min_int: "nat (min (int a) (int b)) = min a b"
  by (simp add: min_def)

lemma takeWhile_two_absent:
  "d \<notin> set s \<Longrightarrow> takeWhile (\<lambda>x. x \<noteq> c \<and> x \<noteq> d) s = takeWhile (\<lambda>x. x \<noteq> c) s"
  by (induction s) auto

lemma takeWhile_two_min:
  "take (min (length (takeWhile (\<lambda>x. x \<noteq> c) s)) (length (takeWhile (\<lambda>x. x \<noteq> d) s))) s
     = takeWhile (\<lambda>x. x \<noteq> c \<and> x \<noteq> d) s"
  by (induction s) auto

lemma extract_api_path_takeWhile:
  "extract_api_path s = takeWhile (\<lambda>x. x \<noteq> 123 \<and> x \<noteq> 63) s"
proof -
  consider (both) "123 \<in> set s" "63 \<in> set s"
    | (brace) "123 \<in> set s" "63 \<notin> set s"
    | (quest) "123 \<notin> set s" "63 \<in> set s"
    | (none) "123 \<notin> set s" "63 \<notin> set s"
    by blast
  then show ?thesis
  proof cases
    case both
    then have "extract_api_path s
        = slice_to s (min (str_find s 123) (str_find s 63))"
      by (simp add: extract_api_path_def Let_def str_find_neg_iff)
    also have "\<dots> = take (min (length (takeWhile (\<lambda>x. x \<noteq> 123) s))
                               (length (takeWhile (\<lambda>x. x \<noteq> 63) s))) s"
      using both by (simp only: slice_to_def str_find_in nat_min_int)
    also have "\<dots> = takeWhile (\<lambda>x. x \<noteq> 123 \<and> x \<noteq> 63) s"
      by (rule takeWhile_two_min)
    finally show ?thesis .
  next
    case brace
    then show ?thesis
      using takeWhile_two_absent [of 63 s 123]
      by (simp add: extract_api_path_def Let_def str_find_neg_iff take_find_eq)
  next
    case quest
    then have "takeWhile (\<lambda>x. x \<noteq> 123 \<and> x \<noteq> 63) s = takeWhile (\<lambda>x. x \<noteq> 63) s"
      using takeWhile_two_absent [of 123 s 63] by (simp add: conj_commute)
    with quest show ?thesis
      by (simp add: extract_api_path_def Let_def str_find_neg_iff take_find_eq)
  next
    case none
    then have whole: "takeWhile (\<lambda>x. x \<noteq> 123 \<and> x \<noteq> 63) s = s"
      by (induction s) auto
    from none have "extract_api_path s = s"
      by (simp add: extract_api_path_def Let_def str_find_neg_iff)
    then show ?thesis
      by (simp only: whole)
  qed
qed

text \<open>
  Claim C8.  For every string, \<open>extract_api_path\<close> returns the part strictly before the
  first character that is an opening brace (code point 123) or a question mark (code
  point 63), and the whole string when neither occurs.  The three literal examples of the
  documentation hold: the path followed by a JSON body, by a query string, and alone.
\<close>

theorem extract_api_path_prefix:
  "extract_api_path s = takeWhile (\<lambda>x. x \<noteq> of_char CHR ''{'' \<and> x \<noteq> of_char CHR ''?'') s
   \<and> extract_api_path (str_of (''/api/homefeed{'' @ [CHR 0x22] @ ''num'' @ [CHR 0x22] @ '':47}''))
       = str_of ''/api/homefeed''
   \<and> extract_api_path (str_of ''/api/homefeed?num=47'') = str_of ''/api/homefeed''
   \<and> extract_api_path (str_of ''/api/homefeed'') = str_of ''/api/homefeed''"
  by (simp add: extract_api_path_takeWhile str_of_def)

section \<open>Session counters\<close>

lemma randint_ge: "randint a b r = Inr d \<Longrightarrow> a \<le> d"
  by (auto simp: randint_def split: if_splits)

lemma randint_le: "randint a b r = Inr d \<Longrightarrow> d \<le> b"
proof -
  assume h: "randint a b r = Inr d"
  then have ab: "a \<le> b" and d: "d = a + int r mod (b - a + 1)"
    by (auto simp: randint_def split: if_splits)
  have "int r mod (b - a + 1) < b - a + 1"
    using ab by (intro pos_mod_bound) simp
  with d show "d \<le> b" by simp
qed

lemma randint_returns: "a \<le> b \<Longrightarrow> \<exists>d. randint a b r = Inr d"
  by (simp add: randint_def)

lemma update_state_config: "sm_config (snd (update_state self r1 r2)) = sm_config self"
  by (simp add: update_state_def Let_def split: sum.splits)

lemma update_state_timestamp:
  "sm_page_load_timestamp (snd (update_state self r1 r2)) = sm_page_load_timestamp self"
  by (simp add: update_state_def Let_def split: sum.splits)

lemma update_state_sequence:
  "0 \<le> SESSION_SEQUENCE_STEP_MIN (sm_config self) \<Longrightarrow>
   sm_sequence_value self \<le> sm_sequence_value (snd (update_state self r1 r2))"
  by (auto simp: update_state_def Let_def split: sum.splits dest: randint_ge)

lemma update_state_window:
  "0 \<le> SESSION_WINDOW_PROPS_STEP_MIN (sm_config self) \<Longrightarrow>
   sm_window_props_length self \<le> sm_window_props_length (snd (update_state self r1 r2))"
  by (auto simp: update_state_def Let_def split: sum.splits dest: randint_ge)

lemma update_state_returns:
  "SESSION_SEQUENCE_STEP_MIN (sm_config self) \<le> SESSION_SEQUENCE_STEP_MAX (sm_config self) \<Longrightarrow>
   SESSION_WINDOW_PROPS_STEP_MIN (sm_config self) \<le> SESSION_WINDOW_PROPS_STEP_MAX (sm_config self) \<Longrightarrow>
   fst (update_state self r1 r2) = Inr ()"
  by (simp add: update_state_def randint_def Let_def)

lemma get_current_state_snd:
  "snd (get_current_state self uri r1 r2) = snd (update_state self r1 r2)"
  by (simp add: get_current_state_def split: prod.splits sum.splits)

lemma get_current_state_fst:
  "fst (get_current_state self uri r1 r2) = Inr s \<Longrightarrow>
   page_load_timestamp s = sm_page_load_timestamp (snd (update_state self r1 r2))
   \<and> sequence_value s = sm_sequence_value (snd (update_state self r1 r2))
   \<and> window_props_length s = sm_window_props_length (snd (update_state self r1 r2))"
  by (auto simp: get_current_state_def split: prod.splits sum.splits)

lemma get_current_state_returns:
  "fst (update_state self r1 r2) = Inr () \<Longrightarrow>
   \<exists>s. fst (get_current_state self uri r1 r2) = Inr s"
  by (auto simp: get_current_state_def split: prod.splits sum.splits)

text \<open>
  The invariant of a run: every snapshot returned from a given object onwards carries the
  object's timestamp and counters that are not below the object's current ones, and the
  returned counters are sorted.
\<close>

lemma successive_calls_invariant:
  "0 \<le> SESSION_SEQUENCE_STEP_MIN (sm_config self) \<Longrightarrow>
   0 \<le> SESSION_WINDOW_PROPS_STEP_MIN (sm_config self) \<Longrightarrow>
   sorted (map sequence_value (returned (successive_calls self calls)))
   \<and> sorted (map window_props_length (returned (successive_calls self calls)))
   \<and> list_all (\<lambda>s. page_load_timestamp s = sm_page_load_timestamp self
                  \<and> sm_sequence_value self \<le> sequence_value s
                  \<and> sm_window_props_length self \<le> window_props_length s)
        (returned (successive_calls self calls))"
proof (induction calls arbitrary: self)
  case Nil
  then show ?case by simp
next
  case (Cons c calls)
  obtain uri r1 r2 where c: "c = (uri, r1, r2)" by (cases c) auto
  define self' where "self' = snd (update_state self r1 r2)"
  define res where "res = fst (get_current_state self uri r1 r2)"
  have step: "get_current_state self uri r1 r2 = (res, self')"
    by (simp add: res_def self'_def prod_eq_iff get_current_state_snd)
  have cfg: "sm_config self' = sm_config self"
    by (simp add: self'_def update_state_config)
  have ts: "sm_page_load_timestamp self' = sm_page_load_timestamp self"
    by (simp add: self'_def update_state_timestamp)
  have sq: "sm_sequence_value self \<le> sm_sequence_value self'"
    using Cons.prems(1) by (simp add: self'_def update_state_sequence)
  have wn: "sm_window_props_length self \<le> sm_window_props_length self'"
    using Cons.prems(2) by (simp add: self'_def update_state_window)
  let ?rest = "returned (successive_calls self' calls)"
  have ih: "sorted (map sequence_value ?rest)
      \<and> sorted (map window_props_length ?rest)
      \<and> list_all (\<lambda>s. page_load_timestamp s = sm_page_load_timestamp self'
                  \<and> sm_sequence_value self' \<le> sequence_value s
                  \<and> sm_window_props_length self' \<le> window_props_length s) ?rest"
    using Cons.IH [of self'] Cons.prems cfg by simp
  have rest_all: "list_all (\<lambda>s. page_load_timestamp s = sm_page_load_timestamp self
                  \<and> sm_sequence_value self \<le> sequence_value s
                  \<and> sm_window_props_length self \<le> window_props_length s) ?rest"
    using ih ts sq wn by (auto simp: list_all_iff)
  show ?case
  proof (cases res)
    case (Inl e)
    then show ?thesis using ih rest_all by (simp add: c step)
  next
    case (Inr s)
    then have s: "page_load_timestamp s = sm_page_load_timestamp self'"
        "sequence_value s = sm_sequence_value self'"
        "window_props_length s = sm_window_props_length self'"
      using get_current_state_fst [of self uri r1 r2 s] by (simp_all add: res_def self'_def)
    have "returned (successive_calls self (c # calls)) = s # ?rest"
      by (simp add: c step Inr)
    moreover have "sorted (map sequence_value (s # ?rest))"
      using ih s by (auto simp: list_all_iff)
    moreover have "sorted (map window_props_length (s # ?rest))"
      using ih s by (auto simp: list_all_iff)
    moreover have "list_all (\<lambda>s. page_load_timestamp s = sm_page_load_timestamp self
                  \<and> sm_sequence_value self \<le> sequence_value s
                  \<and> sm_window_props_length self \<le> window_props_length s) (s # ?rest)"
      using rest_all s ts sq wn by simp
    ultimately show ?thesis by simp
  qed
qed

lemma successive_calls_all_return:
  "SESSION_SEQUENCE_STEP_MIN (sm_config self) \<le> SESSION_SEQUENCE_STEP_MAX (sm_config self) \<Longrightarrow>
   SESSION_WINDOW_PROPS_STEP_MIN (sm_config self) \<le> SESSION_WINDOW_PROPS_STEP_MAX (sm_config self) \<Longrightarrow>
   length (returned (successive_calls self calls)) = length calls"
proof (induction calls arbitrary: self)
  case Nil
  then show ?case by simp
next
  case (Cons c calls)
  obtain uri r1 r2 where c: "c = (uri, r1, r2)" by (cases c) auto
  define self' where "self' = snd (update_state self r1 r2)"
  have cfg: "sm_config self' = sm_config self"
    by (simp add: self'_def update_state_config)
  obtain s where s: "fst (get_current_state self uri r1 r2) = Inr s"
    using get_current_state_returns [OF update_state_returns [OF Cons.prems]] by blast
  have step: "get_current_state self uri r1 r2 = (Inr s, self')"
    using s by (simp add: self'_def prod_eq_iff get_current_state_snd)
  have "length (returned (successive_calls self' calls)) = length calls"
    using Cons.IH [of self'] Cons.prems cfg by simp
  then show ?case by (simp add: c step)
qed

lemma SessionManager_init_fields:
  "SessionManager_init cfg now_ms r1 r2 = Inr self \<Longrightarrow>
   sm_config self = cfg \<and> sm_page_load_timestamp self = now_ms"
  by (auto simp: SessionManager_init_def split: sum.splits)

text \<open>
  Claim C5.  Take a freshly constructed session manager whose configuration has a sequence
  step range with a minimum that is not negative and a window-props step range with a
  positive minimum, and any sequence of successive \<open>get_current_state\<close> calls on it.  The
  snapshots returned have non-decreasing \<open>sequence_value\<close> and non-decreasing
  \<open>window_props_length\<close> in call order, and each carries the \<open>page_load_timestamp\<close> fixed
  by the constructor.  When both step ranges are inclusive ranges (minimum not above
  maximum) every call returns a snapshot.
\<close>

theorem session_snapshots_monotone:
  assumes "SessionManager_init cfg now_ms r_seq r_win = Inr self"
    and "0 \<le> SESSION_SEQUENCE_STEP_MIN cfg"
    and "0 < SESSION_WINDOW_PROPS_STEP_MIN cfg"
  shows "sorted (map sequence_value (returned (successive_calls self calls)))
    \<and> sorted (map window_props_length (returned (successive_calls self calls)))
    \<and> list_all (\<lambda>s. page_load_timestamp s = now_ms) (returned (successive_calls self calls))
    \<and> (SESSION_SEQUENCE_STEP_MIN cfg \<le> SESSION_SEQUENCE_STEP_MAX cfg
       \<and> SESSION_WINDOW_PROPS_STEP_MIN cfg \<le> SESSION_WINDOW_PROPS_STEP_MAX cfg
       \<longrightarrow> length (returned (successive_calls self calls)) = length calls)"
proof -
  from assms(1) have f: "sm_config self = cfg" "sm_page_load_timestamp self = now_ms"
    using SessionManager_init_fields by auto
  have inv: "sorted (map sequence_value (returned (successive_calls self calls)))
   \<and> sorted (map window_props_length (returned (successive_calls self calls)))
   \<and> list_all (\<lambda>s. page_load_timestamp s = sm_page_load_timestamp self
                  \<and> sm_sequence_value self \<le> sequence_value s
                  \<and> sm_window_props_length self \<le> window_props_length s)
        (returned (successive_calls self calls))"
    using successive_calls_invariant [of self calls] assms(2,3) f by simp
  then have "list_all (\<lambda>s. page_load_timestamp s = now_ms)
      (returned (successive_calls self calls))"
    using f by (auto simp: list_all_iff)
  moreover have "SESSION_SEQUENCE_STEP_MIN cfg \<le> SESSION_SEQUENCE_STEP_MAX cfg
       \<and> SESSION_WINDOW_PROPS_STEP_MIN cfg \<le> SESSION_WINDOW_PROPS_STEP_MAX cfg
       \<longrightarrow> length (returned (successive_calls self calls)) = length calls"
    using successive_calls_all_return [of self calls] f by simp
  ultimately show ?thesis using inv by simp
qed


theorem session_snapshots_monotone_witness:
  "SessionManager_init default_config 1700000000000 1 5
     = Inr \<lparr> sm_config = default_config, sm_page_load_timestamp = 1700000000000,
             sm_sequence_value = 16, sm_window_props_length = 1005 \<rparr>
   \<and> 0 \<le> SESSION_SEQUENCE_STEP_MIN default_config
   \<and> 0 < SESSION_WINDOW_PROPS_STEP_MIN default_config
   \<and> sorted (map sequence_value (returned (successive_calls
        \<lparr> sm_config = default_config, sm_page_load_timestamp = 1700000000000,
          sm_sequence_value = 16, sm_window_props_length = 1005 \<rparr>
        [(str_of ''/api/a'', 1, 3), (str_of ''/api/b'', 0, 7), (str_of ''/api/c'', 1, 0)])))
   \<and> sorted (map window_props_length (returned (successive_calls
        \<lparr> sm_config = default_config, sm_page_load_timestamp = 1700000000000,
          sm_sequence_value = 16, sm_window_props_length = 1005 \<rparr>
        [(str_of ''/api/a'', 1, 3), (str_of ''/api/b'', 0, 7), (str_of ''/api/c'', 1, 0)])))
   \<and> list_all (\<lambda>s. page_load_timestamp s = 1700000000000) (returned (successive_calls
        \<lparr> sm_config = default_config, sm_page_load_timestamp = 1700000000000,
          sm_sequence_value = 16, sm_window_props_length = 1005 \<rparr>
        [(str_of ''/api/a'', 1, 3), (str_of ''/api/b'', 0, 7), (str_of ''/api/c'', 1, 0)]))
   \<and> length (returned (successive_calls
        \<lparr> sm_config = default_config, sm_page_load_timestamp = 1700000000000,
          sm_sequence_value = 16, sm_window_props_length = 1005 \<rparr>
        [(str_of ''/api/a'', 1, 3), (str_of ''/api/b'', 0, 7), (str_of ''/api/c'', 1, 0)])) = 3"
proof -
  let ?self = "\<lparr> sm_config = default_config, sm_page_load_timestamp = 1700000000000,
          sm_sequence_value = 16, sm_window_props_length = 1005 \<rparr>"
  let ?calls = "[(str_of ''/api/a'', 1::nat, 3::nat), (str_of ''/api/b'', 0, 7),
          (str_of ''/api/c'', 1, 0)]"
  have init: "SessionManager_init default_config 1700000000000 1 5 = Inr ?self"
    by (simp add: SessionManager_init_def randint_def default_config_def)
  have seq_min: "0 \<le> SESSION_SEQUENCE_STEP_MIN default_config"
    by (simp add: default_config_def)
  have win_min: "0 < SESSION_WINDOW_PROPS_STEP_MIN default_config"
    by (simp add: default_config_def)
  have ranges: "SESSION_SEQUENCE_STEP_MIN default_config \<le> SESSION_SEQUENCE_STEP_MAX default_config
      \<and> SESSION_WINDOW_PROPS_STEP_MIN default_config
          \<le> SESSION_WINDOW_PROPS_STEP_MAX default_config"
    by (simp add: default_config_def)
  have len: "length ?calls = 3" by simp
  from session_snapshots_monotone [OF init seq_min win_min, of ?calls] ranges len
  have "sorted (map sequence_value (returned (successive_calls ?self ?calls)))
    \<and> sorted (map window_props_length (returned (successive_calls ?self ?calls)))
    \<and> list_all (\<lambda>s. page_load_timestamp s = 1700000000000)
         (returned (successive_calls ?self ?calls))
    \<and> length (returned (successive_calls ?self ?calls)) = 3"
    by presburger
  with init seq_min win_min show ?thesis by blast
qed


section \<open>The digest mixer: totality and the bytes it reads\<close>

lemma default_config_simps:
  "MAX_32BIT default_config = 4294967295"
  "VERSION_BYTES default_config = [121, 104, 96, 41]"
  "A1_LENGTH default_config = 52"
  "APP_ID_LENGTH default_config = 10"
  "MD5_XOR_LENGTH default_config = 8"
  "A3_PREFIX default_config = [2, 97, 51, 16]"
  "TIMESTAMP_LE_LENGTH default_config = 8"
  "ENV_TABLE default_config = [115, 248, 83, 102, 103, 201, 181, 131, 99, 94, 4, 68, 250, 132, 21]"
  "ENV_CHECKS_DEFAULT default_config = [0, 1, 18, 1, 0, 0, 0, 0, 0, 0, 3, 0, 0, 0, 0]"
  "HASH_IV default_config = (1831565813, 461845907, 2246822507, 3266489909)"
  by (simp_all add: default_config_def)

lemma length_int_to_le_bytes: "length (int_to_le_bytes v n) = n"
  by (induction n arbitrary: v) auto

lemma int_to_le_bytes_4:
  "int_to_le_bytes v 4
     = [v AND 255, drop_bit 8 v AND 255, drop_bit 16 v AND 255, drop_bit 24 v AND 255]"
  by (simp add: numeral_eq_Suc drop_bit_drop_bit)

lemma int_to_le_bytes_8:
  "int_to_le_bytes v 8
     = [v AND 255, drop_bit 8 v AND 255, drop_bit 16 v AND 255, drop_bit 24 v AND 255,
        drop_bit 32 v AND 255, drop_bit 40 v AND 255, drop_bit 48 v AND 255,
        drop_bit 56 v AND 255]"
  by (simp add: numeral_eq_Suc drop_bit_drop_bit)

lemma byte_and_255: "0 \<le> (v::int) AND 255 \<and> v AND 255 < 256"
proof -
  have "v AND 255 \<le> 255" by (rule AND_upper2) simp
  moreover have "0 \<le> v AND 255" by simp
  ultimately show ?thesis by simp
qed

lemma int_to_le_bytes_range: "list_all (\<lambda>b. 0 \<le> b \<and> b < 256) (int_to_le_bytes v n)"
  by (induction n arbitrary: v) (auto simp: byte_and_255)

lemma length_ljust_take: "length (ljust (take n bs) n z) = n"
  by (simp add: ljust_def)

lemma length_hash_finish: "length (hash_finish cfg len st) = 16"
  by (cases st) (simp add: hash_finish_def Let_def length_int_to_le_bytes)

lemma custom_hash_v2_length: "custom_hash_v2 cfg xs = Inr d \<Longrightarrow> length d = 16"
  by (auto simp: custom_hash_v2_def Let_def length_hash_finish split: prod.splits sum.splits)

lemma slice_block: "py_slice xs (i * 8) ((i + 1) * 8) = take 8 (drop (i * 8) xs)"
  by (simp add: py_slice_def)

lemma slice_block_length:
  "i < length xs div 8 \<Longrightarrow> length (py_slice xs (i * 8) ((i + 1) * 8)) = 8"
  unfolding slice_block by simp

lemma hash_loop_Cons:
  "hash_loop cfg xs (i # idx) st =
     (case bytes_of_list (take 8 (drop (i * 8) xs)) of
        Inl e \<Rightarrow> Inl e
      | Inr b \<Rightarrow>
          (case unpack_II b of
             Inl e \<Rightarrow> Inl e
           | Inr (v0, v1) \<Rightarrow> hash_loop cfg xs idx (hash_round cfg st v0 v1)))"
  by (simp only: hash_loop.simps slice_block)

declare hash_loop.simps(2) [simp del]

lemma hash_loop_returns:
  "\<forall>i\<in>set idx. i < length xs div 8 \<Longrightarrow>
   list_all (\<lambda>b. 0 \<le> b \<and> b < 256) (take (8 * (length xs div 8)) xs) \<Longrightarrow>
   \<exists>st'. hash_loop cfg xs idx st = Inr st'"
proof (induction idx arbitrary: st)
  case Nil
  show ?case by (simp del: split_paired_Ex)
next
  case (Cons i idx)
  then have i: "i < length xs div 8" by simp
  let ?b = "take 8 (drop (i * 8) xs)"
  have sub: "set ?b \<subseteq> set (take (8 * (length xs div 8)) xs)"
  proof -
    have "8 \<le> 8 * (length xs div 8) - i * 8" using i by simp
    then have "?b = take 8 (drop (i * 8) (take (8 * (length xs div 8)) xs))"
      by (simp add: drop_take min_def)
    then show ?thesis
      by (metis set_drop_subset set_take_subset subset_trans)
  qed
  with Cons.prems(2) have "list_all (\<lambda>b. 0 \<le> b \<and> b < 256) ?b"
    by (auto simp: list_all_iff)
  then have b: "bytes_of_list ?b = Inr ?b"
    by (simp add: bytes_of_list_def)
  have "length ?b = 8" using i by simp
  then obtain v0 v1 where v: "unpack_II ?b = Inr (v0, v1)"
    by (simp add: unpack_II_def)
  from Cons.IH [of "hash_round cfg st v0 v1"] Cons.prems
  obtain st' where "hash_loop cfg xs idx (hash_round cfg st v0 v1) = Inr st'" by auto
  then show ?case by (simp add: hash_loop_Cons b v del: split_paired_Ex)
qed

lemma custom_hash_v2_returns:
  "list_all (\<lambda>b. 0 \<le> b \<and> b < 256) (take (8 * (length xs div 8)) xs) \<Longrightarrow>
   \<exists>d. custom_hash_v2 cfg xs = Inr d \<and> length d = 16"
proof -
  assume r: "list_all (\<lambda>b. 0 \<le> b \<and> b < 256) (take (8 * (length xs div 8)) xs)"
  obtain s0 s1 s2 s3 where iv: "HASH_IV cfg = (s0, s1, s2, s3)" by (cases "HASH_IV cfg") auto
  have "\<forall>i\<in>set [0 ..< length xs div 8]. i < length xs div 8" by simp
  from hash_loop_returns [OF this r]
  obtain st' where "hash_loop cfg xs [0 ..< length xs div 8]
      (s0 XOR int (length xs), s1 XOR push_bit 8 (int (length xs)),
       s2 XOR push_bit 16 (int (length xs)), s3 XOR push_bit 24 (int (length xs))) = Inr st'"
    by blast
  then show ?thesis
    by (simp add: custom_hash_v2_def iv Let_def length_hash_finish)
qed

lemma block_of_take:
  "i < n \<Longrightarrow> take 8 (drop (i * 8) (take (8 * n) xs)) = take 8 (drop (i * 8) xs)"
proof -
  assume "i < n"
  then have "8 \<le> 8 * n - i * 8" by simp
  then show ?thesis by (simp add: drop_take min_def)
qed

lemma hash_loop_prefix:
  "\<forall>i\<in>set idx. i < n \<Longrightarrow> take (8 * n) ys = take (8 * n) xs \<Longrightarrow>
   hash_loop cfg ys idx st = hash_loop cfg xs idx st"
proof (induction idx arbitrary: st)
  case Nil
  show ?case by simp
next
  case (Cons i idx)
  then have "i < n" by simp
  then have "take 8 (drop (i * 8) ys) = take 8 (drop (i * 8) xs)"
    using block_of_take [of i n ys] block_of_take [of i n xs] Cons.prems(2) by simp
  moreover have "\<And>st'. hash_loop cfg ys idx st' = hash_loop cfg xs idx st'"
    using Cons.IH Cons.prems by simp
  ultimately show ?case by (simp add: hash_loop_Cons split: sum.splits)
qed

lemma custom_hash_v2_prefix:
  "length ys = length xs \<Longrightarrow>
   take (8 * (length xs div 8)) ys = take (8 * (length xs div 8)) xs \<Longrightarrow>
   custom_hash_v2 cfg ys = custom_hash_v2 cfg xs"
proof -
  assume len: "length ys = length xs"
    and pre: "take (8 * (length xs div 8)) ys = take (8 * (length xs div 8)) xs"
  have "\<And>st. hash_loop cfg ys [0 ..< length xs div 8] st
      = hash_loop cfg xs [0 ..< length xs div 8] st"
    using hash_loop_prefix [of "[0 ..< length xs div 8]" "length xs div 8" ys xs] pre by simp
  then show ?thesis by (simp add: custom_hash_v2_def len)
qed

text \<open>
  The mixer makes no check of the input length.  On four bytes, which is not a multiple of
  eight, the loop runs zero times and the call returns sixteen bytes: the statement that
  such an input is rejected fails here.
\<close>

theorem custom_hash_v2_accepts_partial_block:
  "length [1, 2, 3, 4 :: int] mod 8 \<noteq> 0
   \<and> custom_hash_v2 default_config [1, 2, 3, 4]
       = Inr [18, 228, 151, 124, 160, 31, 45, 110, 74, 221, 59, 162, 213, 206, 12, 137]"
  by (simp add: custom_hash_v2_def hash_finish_def rotate_left_def Let_def default_config_simps
      int_to_le_bytes_4)

text \<open>
  Claim C4, as the code has it.  For a byte list whose length is not a multiple of 8 the
  mixer does not fail: it returns sixteen bytes, and they depend only on the length and on
  the whole 8-byte blocks.  The trailing \<open>length mod 8\<close> bytes are never read, so
  another input of the same length with the same whole blocks gives the same digest.
\<close>

theorem custom_hash_v2_ignores_tail:
  assumes "length xs mod 8 \<noteq> 0"
    and "list_all (\<lambda>b. 0 \<le> b \<and> b < 256) xs"
    and "length ys = length xs"
    and "take (8 * (length xs div 8)) ys = take (8 * (length xs div 8)) xs"
  shows "\<exists>d. custom_hash_v2 cfg xs = Inr d \<and> length d = 16 \<and> custom_hash_v2 cfg ys = Inr d"
proof -
  have "list_all (\<lambda>b. 0 \<le> b \<and> b < 256) (take (8 * (length xs div 8)) xs)"
    using assms(2) by (auto simp: list_all_iff dest: in_set_takeD)
  then obtain d where "custom_hash_v2 cfg xs = Inr d" "length d = 16"
    using custom_hash_v2_returns by blast
  moreover have "custom_hash_v2 cfg ys = custom_hash_v2 cfg xs"
    using assms(3,4) by (rule custom_hash_v2_prefix)
  ultimately show ?thesis by simp
qed

theorem custom_hash_v2_ignores_tail_witness:
  "length [1, 2, 3, 4 :: int] mod 8 \<noteq> 0
   \<and> list_all (\<lambda>b. 0 \<le> b \<and> b < 256) [1, 2, 3, 4 :: int]
   \<and> length [9, 8, 7, 6 :: int] = length [1, 2, 3, 4 :: int]
   \<and> take (8 * (length [1, 2, 3, 4 :: int] div 8)) [9, 8, 7, 6 :: int]
       = take (8 * (length [1, 2, 3, 4 :: int] div 8)) [1, 2, 3, 4]
   \<and> (\<exists>d. custom_hash_v2 default_config [1, 2, 3, 4] = Inr d \<and> length d = 16
          \<and> custom_hash_v2 default_config [9, 8, 7, 6] = Inr d)"
proof -
  have a: "length [1, 2, 3, 4 :: int] mod 8 \<noteq> 0" by simp
  have b: "list_all (\<lambda>b. 0 \<le> b \<and> b < 256) [1, 2, 3, 4 :: int]" by simp
  have c: "length [9, 8, 7, 6 :: int] = length [1, 2, 3, 4 :: int]" by simp
  have d: "take (8 * (length [1, 2, 3, 4 :: int] div 8)) [9, 8, 7, 6 :: int]
       = take (8 * (length [1, 2, 3, 4 :: int] div 8)) [1, 2, 3, 4]" by simp
  from custom_hash_v2_ignores_tail [OF a b c d, of default_config] a b c d
  show ?thesis by blast
qed


section \<open>The library functions\<close>

lemma utf8_char_range: "utf8_char c = Inr bs \<Longrightarrow> list_all (\<lambda>b. 0 \<le> b \<and> b < 256) bs"
  by (auto simp: utf8_char_def split: if_splits)

lemma encode_utf8_range:
  "encode_utf8 s = Inr bs \<Longrightarrow> list_all (\<lambda>b. 0 \<le> b \<and> b < 256) bs"
proof (induction s arbitrary: bs)
  case Nil
  then show ?case by simp
next
  case (Cons c cs)
  then show ?case
    by (auto split: sum.splits dest: utf8_char_range)
qed

lemma encode_utf8_takeWhile:
  "encode_utf8 s = Inr bs \<Longrightarrow> \<exists>bs'. encode_utf8 (takeWhile P s) = Inr bs'"
proof (induction s arbitrary: bs)
  case Nil
  then show ?case by simp
next
  case (Cons c cs)
  then show ?case
    by (fastforce split: sum.splits)
qed

lemma encode_utf8_api_path:
  "encode_utf8 s = Inr bs \<Longrightarrow> \<exists>bs'. encode_utf8 (extract_api_path s) = Inr bs'"
  unfolding extract_api_path_takeWhile by (rule encode_utf8_takeWhile)

lemma encode_utf8_ascii:
  "list_all (\<lambda>c. c < 128) s \<Longrightarrow> encode_utf8 s = Inr (map int s)"
  by (induction s) (auto simp: utf8_char_def)

lemma hex_digit_value_range: "hex_digit_value c = Some d \<Longrightarrow> 0 \<le> d \<and> d < 16"
  by (auto simp: hex_digit_value_def split: if_splits)

lemma hex_digit_not_space: "hex_digit_value c = Some d \<Longrightarrow> \<not> is_ascii_space c"
  by (auto simp: hex_digit_value_def is_ascii_space_def split: if_splits)

lemma bytes_fromhex_digits:
  "list_all (\<lambda>c. hex_digit_value c \<noteq> None) s \<Longrightarrow> even (length s) \<Longrightarrow>
   \<exists>mb. bytes_fromhex s = Inr mb \<and> 2 * length mb = length s"
proof (induction s rule: bytes_fromhex.induct)
  case 1
  then show ?case by simp
next
  case (2 c)
  then show ?case by simp
next
  case (3 c d ds)
  from "3.prems" obtain hi lo where hl: "hex_digit_value c = Some hi" "hex_digit_value d = Some lo"
    by auto
  have ns: "\<not> is_ascii_space c" using hl(1) by (rule hex_digit_not_space)
  from "3.prems" have "list_all (\<lambda>c. hex_digit_value c \<noteq> None) ds" "even (length ds)"
    by simp_all
  with "3.IH"(2) [OF ns hl] obtain mb where "bytes_fromhex ds = Inr mb" "2 * length mb = length ds"
    by blast
  then show ?case using ns hl by simp
qed

section \<open>The digest of the path\<close>

lemma md5_length: "length (md5 msg) = 16"
  by (simp add: md5_def Let_def length_int_to_le_bytes split: prod.splits)

lemma md5_range: "list_all (\<lambda>b. 0 \<le> b \<and> b < 256) (md5 msg)"
  by (simp add: md5_def Let_def int_to_le_bytes_range split: prod.splits)

lemma upt_16: "[0 ..< 16] = [0, 1, 2, 3, 4, 5, 6, 7, 8, 9, 10, 11, 12, 13, 14, 15]"
  by (simp add: upt_conv_Cons)

lemma hex_chars_values:
  "map hex_digit_value (str_of ''0123456789abcdef'') = map (\<lambda>k. Some (int k)) [0 ..< 16]"
  unfolding upt_16 by (simp add: str_of_def hex_digit_value_def)

lemma hex_char_value:
  assumes "k < 16"
  shows "hex_digit_value (str_of ''0123456789abcdef'' ! k) = Some (int k)"
proof -
  have len: "length (str_of ''0123456789abcdef'') = 16" by (simp add: str_of_def)
  have "hex_digit_value (str_of ''0123456789abcdef'' ! k)
      = map hex_digit_value (str_of ''0123456789abcdef'') ! k"
    using assms len by simp
  also have "\<dots> = map (\<lambda>k. Some (int k)) [0 ..< 16] ! k"
    by (simp only: hex_chars_values)
  also have "\<dots> = Some (int k)"
    using assms by (simp del: upt_Suc)
  finally show ?thesis .
qed

lemma int_base16_hex_pair:
  assumes "0 \<le> b" "b < 256"
  shows "int_base16 [str_of ''0123456789abcdef'' ! nat (b div 16),
                     str_of ''0123456789abcdef'' ! nat (b mod 16)] = Inr b"
proof -
  have hi: "nat (b div 16) < 16" using assms by simp
  have lo: "nat (b mod 16) < 16" using assms by simp
  have "int (nat (b div 16)) = b div 16" "int (nat (b mod 16)) = b mod 16"
    using assms by simp_all
  then show ?thesis
    using hex_char_value [OF hi] hex_char_value [OF lo]
    by (simp add: int_base16_def)
qed

lemma map_err_shift:
  "map_err (\<lambda>i. F (py_slice (a # b # xs) i (i + 2))) (map (\<lambda>k. 2 * k) (map Suc ks))
     = map_err (\<lambda>i. F (py_slice xs i (i + 2))) (map (\<lambda>k. 2 * k) ks)"
  by (induction ks) (simp_all add: py_slice_def split: sum.splits)

lemma map_err_hexdigest:
  "list_all (\<lambda>b. 0 \<le> b \<and> b < 256) ds \<Longrightarrow>
   map_err (\<lambda>i. int_base16 (py_slice (hexdigest ds) i (i + 2))) (map (\<lambda>k. 2 * k) [0 ..< length ds])
     = Inr ds"
proof (induction ds)
  case Nil
  then show ?case by simp
next
  case (Cons d ds)
  let ?h = "str_of ''0123456789abcdef'' ! nat (d div 16)"
  let ?l = "str_of ''0123456789abcdef'' ! nat (d mod 16)"
  have hd: "hexdigest (d # ds) = ?h # ?l # hexdigest ds"
    by (simp add: hexdigest_def)
  have idx: "[0 ..< length (d # ds)] = 0 # map Suc [0 ..< length ds]"
    by (simp add: upt_conv_Cons map_Suc_upt del: upt_Suc)
  have first: "int_base16 (py_slice (?h # ?l # hexdigest ds) 0 (0 + 2)) = Inr d"
    using Cons.prems int_base16_hex_pair [of d] by (simp add: py_slice_def)
  have rest: "map_err (\<lambda>i. int_base16 (py_slice (?h # ?l # hexdigest ds) i (i + 2)))
        (map (\<lambda>k. 2 * k) (map Suc [0 ..< length ds])) = Inr ds"
  proof -
    from Cons.prems have "list_all (\<lambda>b. 0 \<le> b \<and> b < 256) ds" by simp
    with Cons.IH show ?thesis by (simp only: map_err_shift)
  qed
  show ?case
    unfolding hd idx using first rest by simp
qed

lemma md5_path_bytes:
  "map_err (\<lambda>i. int_base16 (py_slice (hexdigest (md5 msg)) i (i + 2))) (map (\<lambda>k. 2 * k) [0 ..< 16])
     = Inr (md5 msg)"
  using map_err_hexdigest [OF md5_range, of msg] by (simp only: md5_length)


section \<open>The shape of a payload\<close>

text \<open>
  A call that returns went through every step; the payload is the concatenation of the
  segments in the order of the appends.
\<close>

lemma build_payload_array_Inr:
  assumes "build_payload_array cfg env hex a1 app sp ts ss = Inr p"
  shows "\<exists>tsm fields mb a1e appe pb d.
      int_of_float (times_1000 (case ts of None \<Rightarrow> time_time env | Some t \<Rightarrow> t)) = Inr tsm
      \<and> (case ss of
         Some st \<Rightarrow>
           fields = int_to_le_bytes (page_load_timestamp st) (TIMESTAMP_LE_LENGTH cfg)
              @ int_to_le_bytes (sequence_value st) 4
              @ int_to_le_bytes (window_props_length st) 4
              @ int_to_le_bytes (uri_length st) 4
       | None \<Rightarrow>
           (\<exists>eff sb.
              int_of_float (minus_times_1000 (case ts of None \<Rightarrow> time_time env | Some t \<Rightarrow> t)
                  (time_offset_draw env)) = Inr eff
              \<and> encode_utf8 sp = Inr sb
              \<and> fields = int_to_le_bytes eff (TIMESTAMP_LE_LENGTH cfg)
                @ int_to_le_bytes (sequence_value_draw env) 4
                @ int_to_le_bytes (window_props_length_draw env) 4
                @ int_to_le_bytes (int (length sb)) 4))
      \<and> bytes_fromhex hex = Inr mb \<and> MD5_XOR_LENGTH cfg \<le> length mb
      \<and> encode_utf8 a1 = Inr a1e \<and> encode_utf8 app = Inr appe
      \<and> 15 \<le> length (ENV_TABLE cfg) \<and> 15 \<le> length (ENV_CHECKS_DEFAULT cfg)
      \<and> encode_utf8 (extract_api_path sp) = Inr pb
      \<and> custom_hash_v2 cfg (int_to_le_bytes tsm (TIMESTAMP_LE_LENGTH cfg) @ md5 pb) = Inr d
      \<and> p = VERSION_BYTES cfg
           @ int_to_le_bytes (generate_random_int env) 4
           @ int_to_le_bytes tsm (TIMESTAMP_LE_LENGTH cfg)
           @ fields
           @ map (\<lambda>i. (mb ! i) XOR (generate_random_int env AND 0xFF)) [0 ..< MD5_XOR_LENGTH cfg]
           @ [int (length (ljust (take (A1_LENGTH cfg) a1e) (A1_LENGTH cfg) 0))]
           @ ljust (take (A1_LENGTH cfg) a1e) (A1_LENGTH cfg) 0
           @ [int (length (ljust (take (APP_ID_LENGTH cfg) appe) (APP_ID_LENGTH cfg) 0))]
           @ ljust (take (APP_ID_LENGTH cfg) appe) (APP_ID_LENGTH cfg) 0
           @ [1, (generate_random_int env AND 0xFF) XOR (ENV_TABLE cfg ! 0)]
           @ map (\<lambda>i. (ENV_TABLE cfg ! i) XOR (ENV_CHECKS_DEFAULT cfg ! i)) [1 ..< 15]
           @ A3_PREFIX cfg
           @ map (\<lambda>b. b XOR (generate_random_int env AND 0xFF)) d"
  using assms unfolding build_payload_array_def Let_def md5_path_bytes
  by (auto split: sum.splits option.splits if_splits simp del: upt_Suc upt_rec_numeral)

lemma list_all_take: "list_all P xs \<Longrightarrow> list_all P (take n xs)"
  by (auto simp: list_all_iff dest: in_set_takeD)

text \<open>
  The steps that can raise, in the order of the code: the conversion of the timestamp,
  without a snapshot the conversion of the earlier timestamp and the encoding of the
  uri-and-body string, the decoding of the digest string and its first bytes, the
  encodings of the identity and the app id, and the encoding of the API path.  When none
  of them raises the call returns.
\<close>

lemma build_payload_array_returns:
  assumes tsm: "int_of_float (times_1000 (case ts of None \<Rightarrow> time_time env | Some t \<Rightarrow> t))
        = Inr tsm"
    and none: "ss = None \<longrightarrow>
        (\<exists>eff sb.
           int_of_float (minus_times_1000 (case ts of None \<Rightarrow> time_time env | Some t \<Rightarrow> t)
               (time_offset_draw env)) = Inr eff
           \<and> encode_utf8 sp = Inr sb)"
    and hex: "bytes_fromhex hex = Inr mb" "MD5_XOR_LENGTH cfg \<le> length mb"
    and a1: "encode_utf8 a1 = Inr a1e"
    and app: "encode_utf8 app = Inr appe"
    and pb: "encode_utf8 (extract_api_path sp) = Inr pb"
    and env: "15 \<le> length (ENV_TABLE cfg)" "15 \<le> length (ENV_CHECKS_DEFAULT cfg)"
  shows "\<exists>p. build_payload_array cfg env hex a1 app sp ts ss = Inr p"
proof -
  let ?tsb = "int_to_le_bytes tsm (TIMESTAMP_LE_LENGTH cfg)"
  have "list_all (\<lambda>b. 0 \<le> b \<and> b < 256) (?tsb @ md5 pb)"
    by (simp add: int_to_le_bytes_range md5_range)
  then have "list_all (\<lambda>b. 0 \<le> b \<and> b < 256)
      (take (8 * (length (?tsb @ md5 pb) div 8)) (?tsb @ md5 pb))"
    by (rule list_all_take)
  then obtain d where d: "custom_hash_v2 cfg (?tsb @ md5 pb) = Inr d"
    using custom_hash_v2_returns by blast
  show ?thesis
  proof (cases ss)
    case None
    with none obtain eff sb where
      "int_of_float (minus_times_1000 (case ts of None \<Rightarrow> time_time env | Some t \<Rightarrow> t)
          (time_offset_draw env)) = Inr eff"
      "encode_utf8 sp = Inr sb"
      by blast
    then show ?thesis
      unfolding build_payload_array_def Let_def md5_path_bytes
      using None tsm hex a1 app env pb d
      by (simp split: option.splits del: upt_Suc upt_rec_numeral)
  next
    case (Some st)
    then show ?thesis
      unfolding build_payload_array_def Let_def md5_path_bytes
      using tsm hex a1 app env pb d
      by (simp split: option.splits del: upt_Suc upt_rec_numeral)
  qed
qed

lemma map_nth_upt_take:
  "n \<le> length xs \<Longrightarrow> map (\<lambda>i. f (xs ! i)) [0 ..< n] = map f (take n xs)"
  by (rule nth_equalityI) simp_all

lemma env_part_default:
  "map (\<lambda>i. (ENV_TABLE default_config ! i) XOR (ENV_CHECKS_DEFAULT default_config ! i)) [1 ..< 15]
     = [249, 65, 103, 103, 201, 181, 131, 99, 94, 7, 68, 250, 132, 21]"
  by (simp add: default_config_simps upt_conv_Cons)

text \<open>The same for the default configuration, with the constants written out.\<close>

lemma build_payload_array_default:
  assumes "build_payload_array default_config env hex a1 app sp ts ss = Inr p"
  shows "\<exists>tsm fields mb a1e appe pb d.
      int_of_float (times_1000 (case ts of None \<Rightarrow> time_time env | Some t \<Rightarrow> t)) = Inr tsm
      \<and> (case ss of
         Some st \<Rightarrow>
           fields = int_to_le_bytes (page_load_timestamp st) 8
              @ int_to_le_bytes (sequence_value st) 4
              @ int_to_le_bytes (window_props_length st) 4
              @ int_to_le_bytes (uri_length st) 4
       | None \<Rightarrow>
           (\<exists>eff sb.
              int_of_float (minus_times_1000 (case ts of None \<Rightarrow> time_time env | Some t \<Rightarrow> t)
                  (time_offset_draw env)) = Inr eff
              \<and> encode_utf8 sp = Inr sb
              \<and> fields = int_to_le_bytes eff 8
                @ int_to_le_bytes (sequence_value_draw env) 4
                @ int_to_le_bytes (window_props_length_draw env) 4
                @ int_to_le_bytes (int (length sb)) 4))
      \<and> length fields = 20
      \<and> bytes_fromhex hex = Inr mb \<and> 8 \<le> length mb
      \<and> encode_utf8 a1 = Inr a1e \<and> encode_utf8 app = Inr appe
      \<and> encode_utf8 (extract_api_path sp) = Inr pb
      \<and> custom_hash_v2 default_config (int_to_le_bytes tsm 8 @ md5 pb) = Inr d
      \<and> length d = 16
      \<and> p = [121, 104, 96, 41]
           @ int_to_le_bytes (generate_random_int env) 4
           @ int_to_le_bytes tsm 8
           @ fields
           @ map (\<lambda>b. b XOR (generate_random_int env AND 255)) (take 8 mb)
           @ [52]
           @ ljust (take 52 a1e) 52 0
           @ [10]
           @ ljust (take 10 appe) 10 0
           @ [1, (generate_random_int env AND 255) XOR 115,
              249, 65, 103, 103, 201, 181, 131, 99, 94, 7, 68, 250, 132, 21]
           @ [2, 97, 51, 16]
           @ map (\<lambda>b. b XOR (generate_random_int env AND 255)) d"
proof -
  from build_payload_array_Inr [OF assms]
  obtain tsm fields mb a1e appe pb d where
    t: "int_of_float (times_1000 (case ts of None \<Rightarrow> time_time env | Some t \<Rightarrow> t)) = Inr tsm"
    and f: "(case ss of
         Some st \<Rightarrow>
           fields = int_to_le_bytes (page_load_timestamp st) (TIMESTAMP_LE_LENGTH default_config)
              @ int_to_le_bytes (sequence_value st) 4
              @ int_to_le_bytes (window_props_length st) 4
              @ int_to_le_bytes (uri_length st) 4
       | None \<Rightarrow>
           (\<exists>eff sb.
              int_of_float (minus_times_1000 (case ts of None \<Rightarrow> time_time env | Some t \<Rightarrow> t)
                  (time_offset_draw env)) = Inr eff
              \<and> encode_utf8 sp = Inr sb
              \<and> fields = int_to_le_bytes eff (TIMESTAMP_LE_LENGTH default_config)
                @ int_to_le_bytes (sequence_value_draw env) 4
                @ int_to_le_bytes (window_props_length_draw env) 4
                @ int_to_le_bytes (int (length sb)) 4))"
    and mb: "bytes_fromhex hex = Inr mb" "MD5_XOR_LENGTH default_config \<le> length mb"
    and enc: "encode_utf8 a1 = Inr a1e" "encode_utf8 app = Inr appe"
      "encode_utf8 (extract_api_path sp) = Inr pb"
    and d: "custom_hash_v2 default_config
           (int_to_le_bytes tsm (TIMESTAMP_LE_LENGTH default_config) @ md5 pb) = Inr d"
    and p: "p = VERSION_BYTES default_config
           @ int_to_le_bytes (generate_random_int env) 4
           @ int_to_le_bytes tsm (TIMESTAMP_LE_LENGTH default_config)
           @ fields
           @ map (\<lambda>i. (mb ! i) XOR (generate_random_int env AND 0xFF))
               [0 ..< MD5_XOR_LENGTH default_config]
           @ [int (length (ljust (take (A1_LENGTH default_config) a1e)
                 (A1_LENGTH default_config) 0))]
           @ ljust (take (A1_LENGTH default_config) a1e) (A1_LENGTH default_config) 0
           @ [int (length (ljust (take (APP_ID_LENGTH default_config) appe)
                 (APP_ID_LENGTH default_config) 0))]
           @ ljust (take (APP_ID_LENGTH default_config) appe) (APP_ID_LENGTH default_config) 0
           @ [1, (generate_random_int env AND 0xFF) XOR (ENV_TABLE default_config ! 0)]
           @ map (\<lambda>i. (ENV_TABLE default_config ! i) XOR (ENV_CHECKS_DEFAULT default_config ! i))
               [1 ..< 15]
           @ A3_PREFIX default_config
           @ map (\<lambda>b. b XOR (generate_random_int env AND 0xFF)) d"
    by blast
  have len8: "8 \<le> length mb" using mb(2) by (simp add: default_config_simps)
  have md: "map (\<lambda>i. (mb ! i) XOR (generate_random_int env AND 0xFF))
               [0 ..< MD5_XOR_LENGTH default_config]
        = map (\<lambda>b. b XOR (generate_random_int env AND 255)) (take 8 mb)"
    using map_nth_upt_take [OF len8, of "\<lambda>b. b XOR (generate_random_int env AND 255)"]
    by (simp only: default_config_simps)
  have lf: "length fields = 20"
    using f by (auto simp: length_int_to_le_bytes default_config_simps split: option.splits)
  have ld: "length d = 16" using d by (rule custom_hash_v2_length)
  have p': "p = [121, 104, 96, 41]
           @ int_to_le_bytes (generate_random_int env) 4
           @ int_to_le_bytes tsm 8
           @ fields
           @ map (\<lambda>b. b XOR (generate_random_int env AND 255)) (take 8 mb)
           @ [52]
           @ ljust (take 52 a1e) 52 0
           @ [10]
           @ ljust (take 10 appe) 10 0
           @ [1, (generate_random_int env AND 255) XOR 115,
              249, 65, 103, 103, 201, 181, 131, 99, 94, 7, 68, 250, 132, 21]
           @ [2, 97, 51, 16]
           @ map (\<lambda>b. b XOR (generate_random_int env AND 255)) d"
    unfolding p md env_part_default
    by (simp add: default_config_simps length_ljust_take)
  show ?thesis
    using t f mb(1) len8 enc d lf ld p'
    by (simp only: default_config_simps) blast
qed

section \<open>Properties of the payload\<close>

lemma le_value_int_to_le_bytes: "le_value (int_to_le_bytes v n) = take_bit (8 * n) v"
proof (induction n arbitrary: v)
  case 0
  then show ?case by simp
next
  case (Suc n)
  define b where "b = take_bit (8 * Suc n) v"
  have whole: "push_bit 8 (drop_bit 8 b) + take_bit 8 b = b"
    by (rule bits_ident)
  have "take_bit 8 b = take_bit 8 v"
    unfolding b_def by (simp add: min_def)
  also have "\<dots> = v AND 255"
    by (simp add: take_bit_eq_mask mask_eq_exp_minus_1)
  finally have low: "take_bit 8 b = v AND 255" .
  have high: "drop_bit 8 b = take_bit (8 * n) (drop_bit 8 v)"
    unfolding b_def by (simp add: take_bit_drop_bit add.commute)
  have "le_value (int_to_le_bytes v (Suc n))
      = (v AND 255) + 256 * take_bit (8 * n) (drop_bit 8 v)"
    using Suc.IH [of "drop_bit 8 v"] by simp
  also have "\<dots> = b"
    using whole unfolding low high by (simp add: push_bit_eq_mult)
  finally show ?case by (simp only: b_def)
qed

lemma le_value_fits:
  "0 \<le> v \<Longrightarrow> v < 2 ^ (8 * n) \<Longrightarrow> le_value (int_to_le_bytes v n) = v"
  by (simp add: le_value_int_to_le_bytes take_bit_int_eq_self)

lemma example_hex: "length example_md5_hex = 32
    \<and> list_all (\<lambda>c. hex_digit_value c \<noteq> None) example_md5_hex"
  by (simp add: example_md5_hex_def str_of_def hex_digit_value_def)

lemma example_strings:
  "encode_utf8 (str_of ''abc'') = Inr [97, 98, 99]"
  "encode_utf8 (str_of ''xhs-pc-web'') = Inr [120, 104, 115, 45, 112, 99, 45, 119, 101, 98]"
  "encode_utf8 (str_of ''/api/homefeed?num=47'')
     = Inr [47, 97, 112, 105, 47, 104, 111, 109, 101, 102, 101, 101, 100, 63, 110, 117, 109,
            61, 52, 55]"
  by (simp_all add: str_of_def utf8_char_def)

lemma example_times:
  "int_of_float (times_1000 (case None of None \<Rightarrow> time_time example_env | Some t \<Rightarrow> t))
     = Inr 1700000000123"
  "int_of_float (minus_times_1000 (case None of None \<Rightarrow> time_time example_env | Some t \<Rightarrow> t)
       (time_offset_draw example_env)) = Inr 1699999980123"
  by (simp_all add: example_env_def int_of_float_def)

lemma example_returns:
  "encode_utf8 a1 = Inr a1e \<Longrightarrow> encode_utf8 app = Inr appe \<Longrightarrow>
   \<exists>p. build_payload_array default_config example_env example_md5_hex a1 app
          (str_of ''/api/homefeed?num=47'') None ss = Inr p"
proof -
  assume a: "encode_utf8 a1 = Inr a1e" and b: "encode_utf8 app = Inr appe"
  obtain mb where mb: "bytes_fromhex example_md5_hex = Inr mb" "2 * length mb = length example_md5_hex"
    using bytes_fromhex_digits [of example_md5_hex] example_hex by auto
  then have m8: "MD5_XOR_LENGTH default_config \<le> length mb"
    using example_hex by (simp add: default_config_simps)
  obtain pb where pb: "encode_utf8 (extract_api_path (str_of ''/api/homefeed?num=47'')) = Inr pb"
    using encode_utf8_api_path [OF example_strings(3)] by blast
  have none: "ss = None \<longrightarrow>
        (\<exists>eff sb.
           int_of_float (minus_times_1000 (case None of None \<Rightarrow> time_time example_env | Some t \<Rightarrow> t)
               (time_offset_draw example_env)) = Inr eff
           \<and> encode_utf8 (str_of ''/api/homefeed?num=47'') = Inr sb)"
    using example_times(2) example_strings(3) by blast
  show ?thesis
    by (rule build_payload_array_returns [OF example_times(1) none mb(1) m8 a b pb])
       (simp_all add: default_config_simps)
qed

subsection \<open>Every element is a byte\<close>

lemma xor_byte:
  assumes "0 \<le> a \<and> a < 256" "0 \<le> b \<and> b < 256"
  shows "0 \<le> a XOR b \<and> a XOR b < (256 :: int)"
proof -
  have "a XOR b < 2 ^ 8"
    by (rule XOR_upper) (use assms in simp_all)
  moreover have "0 \<le> a XOR b" using assms by simp
  ultimately show ?thesis by simp
qed

lemma list_all_xor_byte:
  "list_all (\<lambda>b. 0 \<le> b \<and> b < 256) xs \<Longrightarrow>
   list_all (\<lambda>b. 0 \<le> b \<and> b < 256) (map (\<lambda>b. b XOR ((seed :: int) AND 255)) xs)"
  using xor_byte [OF _ byte_and_255 [of seed]] by (auto simp: list_all_iff)

lemma bytes_fromhex_range:
  "bytes_fromhex s = Inr mb \<Longrightarrow> list_all (\<lambda>b. 0 \<le> b \<and> b < 256) mb"
proof (induction s arbitrary: mb rule: bytes_fromhex.induct)
  case 1
  then show ?case by simp
next
  case (2 c)
  then show ?case by (simp split: if_splits)
next
  case (3 c d ds)
  show ?case
  proof (cases "is_ascii_space c")
    case True
    with "3.prems" "3.IH"(1) show ?thesis by simp
  next
    case False
    with "3.prems" obtain hi lo rest where
      h: "hex_digit_value c = Some hi" "hex_digit_value d = Some lo"
        "bytes_fromhex ds = Inr rest" "mb = (16 * hi + lo) # rest"
      by (auto split: option.splits sum.splits)
    from hex_digit_value_range [OF h(1)] hex_digit_value_range [OF h(2)]
    have "0 \<le> 16 * hi + lo \<and> 16 * hi + lo < 256" by simp
    moreover have "list_all (\<lambda>b. 0 \<le> b \<and> b < 256) rest"
      using "3.IH"(2) [OF False h(1) h(2) h(3)] .
    ultimately show ?thesis by (simp add: h(4))
  qed
qed

lemma hash_finish_range: "list_all (\<lambda>b. 0 \<le> b \<and> b < 256) (hash_finish cfg len st)"
  by (cases st) (simp add: hash_finish_def Let_def int_to_le_bytes_range)

lemma custom_hash_v2_range:
  "custom_hash_v2 cfg xs = Inr d \<Longrightarrow> list_all (\<lambda>b. 0 \<le> b \<and> b < 256) d"
  by (auto simp: custom_hash_v2_def Let_def hash_finish_range split: prod.splits sum.splits)

lemma ljust_range:
  "list_all (\<lambda>b. 0 \<le> b \<and> b < 256) bs \<Longrightarrow>
   list_all (\<lambda>b. 0 \<le> b \<and> b < (256 :: int)) (ljust (take n bs) n 0)"
  by (auto simp: ljust_def list_all_iff dest: in_set_takeD)

lemma payload_bytes:
  assumes "build_payload_array default_config env hex a1 app sp ts ss = Inr p"
  shows "list_all (\<lambda>b. 0 \<le> b \<and> b < 256) p"
proof -
  from build_payload_array_default [OF assms]
  obtain tsm fields mb a1e appe pb d where
    f: "(case ss of
         Some st \<Rightarrow>
           fields = int_to_le_bytes (page_load_timestamp st) 8
              @ int_to_le_bytes (sequence_value st) 4
              @ int_to_le_bytes (window_props_length st) 4
              @ int_to_le_bytes (uri_length st) 4
       | None \<Rightarrow>
           (\<exists>eff sb.
              int_of_float (minus_times_1000 (case ts of None \<Rightarrow> time_time env | Some t \<Rightarrow> t)
                  (time_offset_draw env)) = Inr eff
              \<and> encode_utf8 sp = Inr sb
              \<and> fields = int_to_le_bytes eff 8
                @ int_to_le_bytes (sequence_value_draw env) 4
                @ int_to_le_bytes (window_props_length_draw env) 4
                @ int_to_le_bytes (int (length sb)) 4))"
    and mb: "bytes_fromhex hex = Inr mb"
    and enc: "encode_utf8 a1 = Inr a1e" "encode_utf8 app = Inr appe"
    and d: "custom_hash_v2 default_config (int_to_le_bytes tsm 8 @ md5 pb) = Inr d"
    and p: "p = [121, 104, 96, 41]
           @ int_to_le_bytes (generate_random_int env) 4
           @ int_to_le_bytes tsm 8
           @ fields
           @ map (\<lambda>b. b XOR (generate_random_int env AND 255)) (take 8 mb)
           @ [52]
           @ ljust (take 52 a1e) 52 0
           @ [10]
           @ ljust (take 10 appe) 10 0
           @ [1, (generate_random_int env AND 255) XOR 115,
              249, 65, 103, 103, 201, 181, 131, 99, 94, 7, 68, 250, 132, 21]
           @ [2, 97, 51, 16]
           @ map (\<lambda>b. b XOR (generate_random_int env AND 255)) d"
    by blast
  have rf: "list_all (\<lambda>b. 0 \<le> b \<and> b < 256) fields"
    using f by (auto simp: int_to_le_bytes_range split: option.splits)
  have rm: "list_all (\<lambda>b. 0 \<le> b \<and> b < 256)
      (map (\<lambda>b. b XOR (generate_random_int env AND 255)) (take 8 mb))"
    by (intro list_all_xor_byte list_all_take bytes_fromhex_range [OF mb])
  have ra: "list_all (\<lambda>b. 0 \<le> b \<and> b < 256) (ljust (take 52 a1e) 52 0)"
    by (rule ljust_range [OF encode_utf8_range [OF enc(1)]])
  have rp: "list_all (\<lambda>b. 0 \<le> b \<and> b < 256) (ljust (take 10 appe) 10 0)"
    by (rule ljust_range [OF encode_utf8_range [OF enc(2)]])
  have rd: "list_all (\<lambda>b. 0 \<le> b \<and> b < 256)
      (map (\<lambda>b. b XOR (generate_random_int env AND 255)) d)"
    by (intro list_all_xor_byte custom_hash_v2_range [OF d])
  have rs: "0 \<le> (generate_random_int env AND 255) XOR 115
      \<and> (generate_random_int env AND 255) XOR 115 < 256"
    by (rule xor_byte [OF byte_and_255]) simp
  show ?thesis
    unfolding p using rf rm ra rp rd rs
    by (simp add: int_to_le_bytes_range)
qed

text \<open>
  The builder raises on inputs that are a 32-character hexadecimal digest, encodable
  identity and app id, a string and a float: with a NaN timestamp the conversion to
  milliseconds raises \<open>ValueError\<close>, and without a snapshot a uri-and-body string that
  holds a lone surrogate raises \<open>UnicodeEncodeError\<close>.
\<close>

theorem build_payload_array_raises_on_nan_and_surrogate:
  "length example_md5_hex = 32
   \<and> list_all (\<lambda>c. hex_digit_value c \<noteq> None) example_md5_hex
   \<and> build_payload_array default_config example_env example_md5_hex (str_of ''abc'')
        (str_of ''xhs-pc-web'') (str_of ''/api/homefeed?num=47'')
        (Some \<lparr> times_1000 = Not_a_number, minus_times_1000 = (\<lambda>k. Not_a_number) \<rparr>)
        (Some \<lparr> page_load_timestamp = 1699999990000, sequence_value = 17,
                window_props_length = 1042, uri_length = 20 \<rparr>)
       = Inl ValueError
   \<and> build_payload_array default_config example_env example_md5_hex (str_of ''abc'')
        (str_of ''xhs-pc-web'') (str_of ''/api/x?q='' @ [55296]) None None
       = Inl UnicodeEncodeError"
proof -
  have nan: "build_payload_array default_config example_env example_md5_hex (str_of ''abc'')
        (str_of ''xhs-pc-web'') (str_of ''/api/homefeed?num=47'')
        (Some \<lparr> times_1000 = Not_a_number, minus_times_1000 = (\<lambda>k. Not_a_number) \<rparr>)
        (Some \<lparr> page_load_timestamp = 1699999990000, sequence_value = 17,
                window_props_length = 1042, uri_length = 20 \<rparr>)
       = Inl ValueError"
    by (simp add: build_payload_array_def Let_def int_of_float_def)
  have enc: "encode_utf8 (str_of ''/api/x?q='' @ [55296]) = Inl UnicodeEncodeError"
    by (simp add: str_of_def utf8_char_def)
  have sur: "build_payload_array default_config example_env example_md5_hex (str_of ''abc'')
        (str_of ''xhs-pc-web'') (str_of ''/api/x?q='' @ [55296]) None None
       = Inl UnicodeEncodeError"
    unfolding build_payload_array_def Let_def
    by (simp add: enc example_times [simplified] example_env_def int_of_float_def)
  from example_hex nan sur show ?thesis by blast
qed

text \<open>
  Claim C2, as the code has it.  Take a digest string of 32 hexadecimal digits, identity
  and app-id strings that have a UTF-8 encoding, a uri-and-body string whose API path has
  one, and a timestamp whose product with 1000 is a finite float; without a snapshot let
  also the whole uri-and-body string have a UTF-8 encoding and the earlier timestamp be
  finite.  Then \<open>build_payload_array\<close> returns a payload of exactly 144 elements, each a
  byte, whether or not a session snapshot is given.  The two branches fill the same byte
  range: the payload and the payload of the same call with a snapshot agree on bytes 0 to
  15 and from byte 36 on.
\<close>

theorem build_payload_array_length:
  assumes "length hex_parameter = 32"
    and "list_all (\<lambda>c. hex_digit_value c \<noteq> None) hex_parameter"
    and "encode_utf8 a1_value = Inr a1e"
    and "encode_utf8 app_identifier = Inr appe"
    and "encode_utf8 (extract_api_path string_param) = Inr pb"
    and "int_of_float (times_1000 (case timestamp of None \<Rightarrow> time_time env | Some t \<Rightarrow> t))
          = Inr tsm"
    and "sign_state = None \<longrightarrow>
        (\<exists>eff sb.
           int_of_float (minus_times_1000
               (case timestamp of None \<Rightarrow> time_time env | Some t \<Rightarrow> t)
               (time_offset_draw env)) = Inr eff
           \<and> encode_utf8 string_param = Inr sb)"
  shows "\<exists>p q.
      build_payload_array default_config env hex_parameter a1_value app_identifier
          string_param timestamp sign_state = Inr p
      \<and> build_payload_array default_config env hex_parameter a1_value app_identifier
          string_param timestamp (Some snapshot) = Inr q
      \<and> length p = 144 \<and> length q = 144
      \<and> list_all (\<lambda>b. 0 \<le> b \<and> b < 256) p \<and> list_all (\<lambda>b. 0 \<le> b \<and> b < 256) q
      \<and> take 16 p = take 16 q \<and> drop 36 p = drop 36 q"
proof -
  obtain mb where mb: "bytes_fromhex hex_parameter = Inr mb" "2 * length mb = length hex_parameter"
    using bytes_fromhex_digits [of hex_parameter] assms(1,2) by auto
  then have m8: "MD5_XOR_LENGTH default_config \<le> length mb"
    using assms(1) by (simp add: default_config_simps)
  have e: "15 \<le> length (ENV_TABLE default_config)"
      "15 \<le> length (ENV_CHECKS_DEFAULT default_config)"
    by (simp_all add: default_config_simps)
  obtain p where p: "build_payload_array default_config env hex_parameter a1_value
      app_identifier string_param timestamp sign_state = Inr p"
    using build_payload_array_returns [OF assms(6) assms(7) mb(1) m8 assms(3,4,5) e] by blast
  have some: "Some snapshot = None \<longrightarrow>
        (\<exists>eff sb.
           int_of_float (minus_times_1000
               (case timestamp of None \<Rightarrow> time_time env | Some t \<Rightarrow> t)
               (time_offset_draw env)) = Inr eff
           \<and> encode_utf8 string_param = Inr sb)"
    by simp
  obtain q where q: "build_payload_array default_config env hex_parameter a1_value
      app_identifier string_param timestamp (Some snapshot) = Inr q"
    using build_payload_array_returns [OF assms(6) some mb(1) m8 assms(3,4,5) e] by blast
  from build_payload_array_default [OF p] build_payload_array_default [OF q]
  have "length p = 144 \<and> length q = 144 \<and> take 16 p = take 16 q \<and> drop 36 p = drop 36 q"
    by (auto simp: length_int_to_le_bytes length_ljust_take)
  with p q payload_bytes [OF p] payload_bytes [OF q] show ?thesis by blast
qed

theorem build_payload_array_length_witness:
  "length example_md5_hex = 32
   \<and> list_all (\<lambda>c. hex_digit_value c \<noteq> None) example_md5_hex
   \<and> encode_utf8 (str_of ''abc'') = Inr [97, 98, 99]
   \<and> encode_utf8 (str_of ''xhs-pc-web'') = Inr [120, 104, 115, 45, 112, 99, 45, 119, 101, 98]
   \<and> encode_utf8 (extract_api_path (str_of ''/api/homefeed?num=47''))
       = Inr [47, 97, 112, 105, 47, 104, 111, 109, 101, 102, 101, 101, 100]
   \<and> int_of_float (times_1000 (time_time example_env)) = Inr 1700000000123
   \<and> int_of_float (minus_times_1000 (time_time example_env) (time_offset_draw example_env))
       = Inr 1699999980123
   \<and> encode_utf8 (str_of ''/api/homefeed?num=47'')
       = Inr [47, 97, 112, 105, 47, 104, 111, 109, 101, 102, 101, 101, 100, 63, 110, 117, 109,
              61, 52, 55]
   \<and> (\<exists>p q.
        build_payload_array default_config example_env example_md5_hex (str_of ''abc'')
            (str_of ''xhs-pc-web'') (str_of ''/api/homefeed?num=47'') None None = Inr p
        \<and> build_payload_array default_config example_env example_md5_hex (str_of ''abc'')
            (str_of ''xhs-pc-web'') (str_of ''/api/homefeed?num=47'') None
            (Some \<lparr> page_load_timestamp = 1699999990000, sequence_value = 17,
                    window_props_length = 1042, uri_length = 20 \<rparr>) = Inr q
        \<and> length p = 144 \<and> length q = 144
        \<and> list_all (\<lambda>b. 0 \<le> b \<and> b < 256) p \<and> list_all (\<lambda>b. 0 \<le> b \<and> b < 256) q
        \<and> take 16 p = take 16 q \<and> drop 36 p = drop 36 q)"
proof -
  have path: "encode_utf8 (extract_api_path (str_of ''/api/homefeed?num=47''))
       = Inr [47, 97, 112, 105, 47, 104, 111, 109, 101, 102, 101, 101, 100]"
    by (simp add: extract_api_path_takeWhile str_of_def utf8_char_def)
  have t1: "int_of_float (times_1000 (case None of None \<Rightarrow> time_time example_env | Some t \<Rightarrow> t))
      = Inr 1700000000123"
    and t2: "int_of_float (minus_times_1000 (time_time example_env) (time_offset_draw example_env))
       = Inr 1699999980123"
    by (simp_all add: example_env_def int_of_float_def)
  have none: "None = None \<longrightarrow>
        (\<exists>eff sb.
           int_of_float (minus_times_1000
               (case None of None \<Rightarrow> time_time example_env | Some t \<Rightarrow> t)
               (time_offset_draw example_env)) = Inr eff
           \<and> encode_utf8 (str_of ''/api/homefeed?num=47'') = Inr sb)"
    using t2 example_strings(3) by simp
  from build_payload_array_length [OF conjunct1 [OF example_hex] conjunct2 [OF example_hex]
      example_strings(1) example_strings(2) path t1 none,
      of "\<lparr> page_load_timestamp = 1699999990000, sequence_value = 17,
         window_props_length = 1042, uri_length = 20 \<rparr>"]
  have "\<exists>p q.
        build_payload_array default_config example_env example_md5_hex (str_of ''abc'')
            (str_of ''xhs-pc-web'') (str_of ''/api/homefeed?num=47'') None None = Inr p
        \<and> build_payload_array default_config example_env example_md5_hex (str_of ''abc'')
            (str_of ''xhs-pc-web'') (str_of ''/api/homefeed?num=47'') None
            (Some \<lparr> page_load_timestamp = 1699999990000, sequence_value = 17,
                    window_props_length = 1042, uri_length = 20 \<rparr>) = Inr q
        \<and> length p = 144 \<and> length q = 144
        \<and> list_all (\<lambda>b. 0 \<le> b \<and> b < 256) p \<and> list_all (\<lambda>b. 0 \<le> b \<and> b < 256) q
        \<and> take 16 p = take 16 q \<and> drop 36 p = drop 36 q" .
  moreover have "int_of_float (times_1000 (time_time example_env)) = Inr 1700000000123"
    using t1 by simp
  ultimately show ?thesis
    using example_hex example_strings path t2 by blast
qed

text \<open>The two length-prefixed fields of a payload.\<close>

lemma prefixed_fields:
  assumes "build_payload_array default_config env hex_parameter a1_value app_identifier
      string_param timestamp sign_state = Inr p"
  shows "\<exists>a1e appe.
      encode_utf8 a1_value = Inr a1e \<and> encode_utf8 app_identifier = Inr appe
      \<and> p ! 44 = 52 \<and> py_slice p 45 97 = take 52 a1e @ replicate (52 - length a1e) 0
      \<and> p ! 97 = 10 \<and> py_slice p 98 108 = take 10 appe @ replicate (10 - length appe) 0"
proof -
  from build_payload_array_default [OF assms]
  show ?thesis
    by (auto simp: length_int_to_le_bytes length_ljust_take nth_append py_slice_def ljust_def)
qed

text \<open>
  Claim C10.  Whatever the identity and app-id values are, also when their UTF-8
  encodings are shorter than the field, the length prefix is the length of the padded
  field: byte 44 of every payload is 52 and byte 97 is 10, and the fields that follow them
  are the encodings cut to the width and padded with zero bytes.
\<close>

theorem length_prefix_constant:
  assumes "build_payload_array default_config env hex_parameter a1_value app_identifier
      string_param timestamp sign_state = Inr p"
  shows "\<exists>a1e appe.
      encode_utf8 a1_value = Inr a1e \<and> encode_utf8 app_identifier = Inr appe
      \<and> p ! 44 = 52 \<and> py_slice p 45 97 = take 52 a1e @ replicate (52 - length a1e) 0
      \<and> p ! 97 = 10 \<and> py_slice p 98 108 = take 10 appe @ replicate (10 - length appe) 0"
  using prefixed_fields [OF assms] .

theorem length_prefix_constant_witness:
  "\<exists>p. build_payload_array default_config example_env example_md5_hex (str_of ''abc'')
          (str_of ''web'') (str_of ''/api/homefeed?num=47'') None None = Inr p
      \<and> encode_utf8 (str_of ''abc'') = Inr [97, 98, 99]
      \<and> encode_utf8 (str_of ''web'') = Inr [119, 101, 98]
      \<and> p ! 44 = 52 \<and> py_slice p 45 97 = [97, 98, 99] @ replicate 49 0
      \<and> p ! 97 = 10 \<and> py_slice p 98 108 = [119, 101, 98] @ replicate 7 0"
proof -
  have a: "encode_utf8 (str_of ''abc'') = Inr [97, 98, 99]"
    and b: "encode_utf8 (str_of ''web'') = Inr [119, 101, 98]"
    by (simp_all add: str_of_def utf8_char_def)
  obtain p where p: "build_payload_array default_config example_env example_md5_hex
      (str_of ''abc'') (str_of ''web'') (str_of ''/api/homefeed?num=47'') None None = Inr p"
    using example_returns [OF a b] by blast
  from length_prefix_constant [OF p] a b
  have "p ! 44 = 52 \<and> py_slice p 45 97 = [97, 98, 99] @ replicate 49 0
      \<and> p ! 97 = 10 \<and> py_slice p 98 108 = [119, 101, 98] @ replicate 7 0"
    by auto
  with p a b show ?thesis by blast
qed

text \<open>
  Claim C9.  When the UTF-8 encoding of the identity value is longer than 52 bytes, the
  encoded bytes are cut to the first 52 before the prefix is computed: byte 44 of the
  payload is 52, not the length of the encoding, and bytes 45 to 96 are the first 52
  bytes of the encoding.  The cut is on bytes: eighteen three-byte characters are cut
  after the first byte of the last one.
\<close>

theorem identity_truncated_to_52:
  assumes "build_payload_array default_config env hex_parameter a1_value app_identifier
      string_param timestamp sign_state = Inr p"
    and "encode_utf8 a1_value = Inr a1e"
    and "52 < length a1e"
  shows "p ! 44 = 52 \<and> py_slice p 45 97 = take 52 a1e \<and> length (take 52 a1e) = 52"
proof -
  from prefixed_fields [OF assms(1)] assms(2,3)
  show ?thesis by auto
qed

theorem identity_truncated_to_52_witness:
  "\<exists>p. build_payload_array default_config example_env example_md5_hex
          [20013, 20013, 20013, 20013, 20013, 20013, 20013, 20013, 20013, 20013, 20013,
          20013, 20013, 20013, 20013, 20013, 20013, 20013]
          (str_of ''xhs-pc-web'') (str_of ''/api/homefeed?num=47'') None None = Inr p
      \<and> encode_utf8 [20013, 20013, 20013, 20013, 20013, 20013, 20013, 20013, 20013, 20013, 20013,
          20013, 20013, 20013, 20013, 20013, 20013, 20013]
          = Inr [228, 184, 173, 228, 184, 173, 228, 184, 173, 228, 184, 173, 228, 184, 173,
          228, 184, 173, 228, 184, 173, 228, 184, 173, 228, 184, 173, 228, 184, 173,
          228, 184, 173, 228, 184, 173, 228, 184, 173, 228, 184, 173, 228, 184, 173,
          228, 184, 173, 228, 184, 173, 228, 184, 173]
      \<and> 52 < length ([228, 184, 173, 228, 184, 173, 228, 184, 173, 228, 184, 173, 228, 184, 173,
          228, 184, 173, 228, 184, 173, 228, 184, 173, 228, 184, 173, 228, 184, 173,
          228, 184, 173, 228, 184, 173, 228, 184, 173, 228, 184, 173, 228, 184, 173,
          228, 184, 173, 228, 184, 173, 228, 184, 173] :: int list)
      \<and> p ! 44 = 52
      \<and> py_slice p 45 97
          = [228, 184, 173, 228, 184, 173, 228, 184, 173, 228, 184, 173, 228, 184, 173,
          228, 184, 173, 228, 184, 173, 228, 184, 173, 228, 184, 173, 228, 184, 173,
          228, 184, 173, 228, 184, 173, 228, 184, 173, 228, 184, 173, 228, 184, 173,
          228, 184, 173, 228, 184, 173, 228]"
proof -
  let ?a1 = "[20013, 20013, 20013, 20013, 20013, 20013, 20013, 20013, 20013, 20013, 20013,
          20013, 20013, 20013, 20013, 20013, 20013, 20013] :: pystr"
  let ?enc = "[228, 184, 173, 228, 184, 173, 228, 184, 173, 228, 184, 173, 228, 184, 173,
          228, 184, 173, 228, 184, 173, 228, 184, 173, 228, 184, 173, 228, 184, 173,
          228, 184, 173, 228, 184, 173, 228, 184, 173, 228, 184, 173, 228, 184, 173,
          228, 184, 173, 228, 184, 173, 228, 184, 173] :: int list"
  have a: "encode_utf8 ?a1 = Inr ?enc"
    by (simp add: utf8_char_def)
  have l: "52 < length ?enc"
    by simp
  obtain p where p: "build_payload_array default_config example_env example_md5_hex
      ?a1 (str_of ''xhs-pc-web'') (str_of ''/api/homefeed?num=47'') None None = Inr p"
    using example_returns [OF a example_strings(2)] by blast
  from identity_truncated_to_52 [OF p a l]
  have "p ! 44 = 52 \<and> py_slice p 45 97
          = [228, 184, 173, 228, 184, 173, 228, 184, 173, 228, 184, 173, 228, 184, 173,
          228, 184, 173, 228, 184, 173, 228, 184, 173, 228, 184, 173, 228, 184, 173,
          228, 184, 173, 228, 184, 173, 228, 184, 173, 228, 184, 173, 228, 184, 173,
          228, 184, 173, 228, 184, 173, 228]"
    by simp
  with p a l show ?thesis by blast
qed


text \<open>The bytes of a payload that depend on the seed.\<close>

lemma seed_bytes:
  assumes "build_payload_array default_config env hex_parameter a1_value app_identifier
      string_param timestamp sign_state = Inr p"
  shows "\<exists>tsm mb pb d.
      int_of_float (times_1000 (case timestamp of None \<Rightarrow> time_time env | Some t \<Rightarrow> t))
        = Inr tsm
      \<and> bytes_fromhex hex_parameter = Inr mb
      \<and> encode_utf8 (extract_api_path string_param) = Inr pb
      \<and> custom_hash_v2 default_config
           (int_to_le_bytes tsm 8 @ md5 pb) = Inr d
      \<and> py_slice p 4 8 = int_to_le_bytes (generate_random_int env) 4
      \<and> p ! 4 = generate_random_int env AND 0xFF
      \<and> py_slice p 36 44 = map (\<lambda>b. b XOR (generate_random_int env AND 0xFF)) (take 8 mb)
      \<and> py_slice p 128 144 = map (\<lambda>b. b XOR (generate_random_int env AND 0xFF)) d"
proof -
  from build_payload_array_default [OF assms]
  obtain tsm fields mb a1e appe pb d where
    t: "int_of_float (times_1000 (case timestamp of None \<Rightarrow> time_time env | Some t \<Rightarrow> t))
        = Inr tsm"
    and lf: "length fields = 20" and mb: "bytes_fromhex hex_parameter = Inr mb" "8 \<le> length mb"
    and pb: "encode_utf8 (extract_api_path string_param) = Inr pb"
    and d: "custom_hash_v2 default_config
           (int_to_le_bytes tsm 8 @ md5 pb) = Inr d" "length d = 16"
    and p: "p = [121, 104, 96, 41]
           @ int_to_le_bytes (generate_random_int env) 4
           @ int_to_le_bytes tsm 8
           @ fields
           @ map (\<lambda>b. b XOR (generate_random_int env AND 255)) (take 8 mb)
           @ [52]
           @ ljust (take 52 a1e) 52 0
           @ [10]
           @ ljust (take 10 appe) 10 0
           @ [1, (generate_random_int env AND 255) XOR 115,
              249, 65, 103, 103, 201, 181, 131, 99, 94, 7, 68, 250, 132, 21]
           @ [2, 97, 51, 16]
           @ map (\<lambda>b. b XOR (generate_random_int env AND 255)) d"
    by blast
  have s1: "py_slice p 4 8 = int_to_le_bytes (generate_random_int env) 4"
    unfolding p by (simp add: py_slice_def length_int_to_le_bytes)
  have s2: "p ! 4 = generate_random_int env AND 0xFF"
    unfolding p by (simp add: nth_append int_to_le_bytes_4)
  have s3: "py_slice p 36 44 = map (\<lambda>b. b XOR (generate_random_int env AND 0xFF)) (take 8 mb)"
    unfolding p using lf mb(2) by (simp add: py_slice_def length_int_to_le_bytes)
  have s4: "py_slice p 128 144 = map (\<lambda>b. b XOR (generate_random_int env AND 0xFF)) d"
    unfolding p using lf mb(2) d(2)
    by (simp add: py_slice_def length_int_to_le_bytes length_ljust_take)
  from t mb(1) pb d(1) s1 s2 s3 s4 show ?thesis by blast
qed

text \<open>
  Claim C7.  In every payload the four seed bytes at offsets 4 to 7 are the little-endian
  encoding of the one seed drawn by the call, and the byte combined by XOR into the MD5
  block at offsets 36 to 43 and into the digest block at offsets 128 to 143 is the low
  byte of that seed, that is, the payload's byte 4.
\<close>

theorem seed_byte_is_payload_4:
  assumes "build_payload_array default_config env hex_parameter a1_value app_identifier
      string_param timestamp sign_state = Inr p"
  shows "\<exists>tsm mb pb d.
      int_of_float (times_1000 (case timestamp of None \<Rightarrow> time_time env | Some t \<Rightarrow> t))
        = Inr tsm
      \<and> bytes_fromhex hex_parameter = Inr mb
      \<and> encode_utf8 (extract_api_path string_param) = Inr pb
      \<and> custom_hash_v2 default_config
           (int_to_le_bytes tsm 8 @ md5 pb) = Inr d
      \<and> py_slice p 4 8 = int_to_le_bytes (generate_random_int env) 4
      \<and> p ! 4 = generate_random_int env AND 0xFF
      \<and> py_slice p 36 44 = map (\<lambda>b. b XOR p ! 4) (take 8 mb)
      \<and> py_slice p 128 144 = map (\<lambda>b. b XOR p ! 4) d"
proof -
  from seed_bytes [OF assms] show ?thesis by fastforce
qed

theorem seed_byte_is_payload_4_witness:
  "\<exists>p mb pb d.
      build_payload_array default_config example_env example_md5_hex (str_of ''abc'')
          (str_of ''xhs-pc-web'') (str_of ''/api/homefeed?num=47'') None None = Inr p
      \<and> bytes_fromhex example_md5_hex = Inr mb
      \<and> encode_utf8 (extract_api_path (str_of ''/api/homefeed?num=47'')) = Inr pb
      \<and> custom_hash_v2 default_config (int_to_le_bytes 1700000000123 8 @ md5 pb) = Inr d
      \<and> py_slice p 4 8 = [120, 86, 52, 18]
      \<and> p ! 4 = 120
      \<and> py_slice p 36 44 = map (\<lambda>b. b XOR 120) (take 8 mb)
      \<and> py_slice p 128 144 = map (\<lambda>b. b XOR 120) d"
proof -
  obtain p where p: "build_payload_array default_config example_env example_md5_hex
      (str_of ''abc'') (str_of ''xhs-pc-web'') (str_of ''/api/homefeed?num=47'') None None = Inr p"
    using example_returns [OF example_strings(1) example_strings(2)] by blast
  have seed: "generate_random_int example_env = 305419896"
    and ms: "int_of_float (times_1000 (time_time example_env)) = Inr 1700000000123"
    by (simp_all add: example_env_def int_of_float_def)
  have le: "int_to_le_bytes 305419896 4 = [120, 86, 52, 18]"
    by (simp add: int_to_le_bytes_4)
  have low: "(305419896 :: int) AND 255 = 120" by simp
  from seed_byte_is_payload_4 [OF p] obtain mb pb d where
    "bytes_fromhex example_md5_hex = Inr mb"
    "encode_utf8 (extract_api_path (str_of ''/api/homefeed?num=47'')) = Inr pb"
    "custom_hash_v2 default_config (int_to_le_bytes 1700000000123 8 @ md5 pb) = Inr d"
    "py_slice p 4 8 = [120, 86, 52, 18]"
    "p ! 4 = 120"
    "py_slice p 36 44 = map (\<lambda>b. b XOR 120) (take 8 mb)"
    "py_slice p 128 144 = map (\<lambda>b. b XOR 120) d"
    by (auto simp: seed ms le low)
  with p show ?thesis by blast
qed

text \<open>
  Claim C6.  When a session snapshot is given whose timestamp is below \<open>2^64\<close> and whose
  other three fields are below \<open>2^32\<close>, none of them negative, the little-endian reading
  of payload bytes 16 to 23, 24 to 27, 28 to 31 and 32 to 35 gives back the snapshot's
  \<open>page_load_timestamp\<close>, \<open>sequence_value\<close>, \<open>window_props_length\<close> and \<open>uri_length\<close>.
\<close>

theorem snapshot_fields_decode:
  assumes "build_payload_array default_config env hex_parameter a1_value app_identifier
      string_param timestamp (Some st) = Inr p"
    and "0 \<le> page_load_timestamp st" "page_load_timestamp st < 2 ^ 64"
    and "0 \<le> sequence_value st" "sequence_value st < 2 ^ 32"
    and "0 \<le> window_props_length st" "window_props_length st < 2 ^ 32"
    and "0 \<le> uri_length st" "uri_length st < 2 ^ 32"
  shows "le_value (py_slice p 16 24) = page_load_timestamp st
    \<and> le_value (py_slice p 24 28) = sequence_value st
    \<and> le_value (py_slice p 28 32) = window_props_length st
    \<and> le_value (py_slice p 32 36) = uri_length st"
proof -
  from build_payload_array_default [OF assms(1)]
  obtain tsm rest where p: "p = [121, 104, 96, 41]
           @ int_to_le_bytes (generate_random_int env) 4
           @ int_to_le_bytes tsm 8
           @ (int_to_le_bytes (page_load_timestamp st) 8
              @ int_to_le_bytes (sequence_value st) 4
              @ int_to_le_bytes (window_props_length st) 4
              @ int_to_le_bytes (uri_length st) 4)
           @ rest"
    by auto
  have s1: "py_slice p 16 24 = int_to_le_bytes (page_load_timestamp st) 8"
    and s2: "py_slice p 24 28 = int_to_le_bytes (sequence_value st) 4"
    and s3: "py_slice p 28 32 = int_to_le_bytes (window_props_length st) 4"
    and s4: "py_slice p 32 36 = int_to_le_bytes (uri_length st) 4"
    unfolding p by (simp_all add: py_slice_def length_int_to_le_bytes)
  show ?thesis
    unfolding s1 s2 s3 s4 using assms(2-) by (simp add: le_value_fits)
qed

theorem snapshot_fields_decode_witness:
  "\<exists>p. build_payload_array default_config example_env example_md5_hex (str_of ''abc'')
          (str_of ''xhs-pc-web'') (str_of ''/api/homefeed?num=47'') None
          (Some \<lparr> page_load_timestamp = 1699999990000, sequence_value = 17,
                  window_props_length = 1042, uri_length = 20 \<rparr>) = Inr p
      \<and> (0 :: int) \<le> 1699999990000 \<and> (1699999990000 :: int) < 2 ^ 64
      \<and> (0 :: int) \<le> 17 \<and> (17 :: int) < 2 ^ 32
      \<and> (0 :: int) \<le> 1042 \<and> (1042 :: int) < 2 ^ 32
      \<and> (0 :: int) \<le> 20 \<and> (20 :: int) < 2 ^ 32
      \<and> le_value (py_slice p 16 24) = 1699999990000
      \<and> le_value (py_slice p 24 28) = 17
      \<and> le_value (py_slice p 28 32) = 1042
      \<and> le_value (py_slice p 32 36) = 20"
proof -
  let ?st = "\<lparr> page_load_timestamp = 1699999990000, sequence_value = 17,
                  window_props_length = 1042, uri_length = 20 \<rparr>"
  obtain p where p: "build_payload_array default_config example_env example_md5_hex
      (str_of ''abc'') (str_of ''xhs-pc-web'') (str_of ''/api/homefeed?num=47'') None
      (Some ?st) = Inr p"
    using example_returns [OF example_strings(1) example_strings(2)] by blast
  have "le_value (py_slice p 16 24) = 1699999990000
      \<and> le_value (py_slice p 24 28) = 17
      \<and> le_value (py_slice p 28 32) = 1042
      \<and> le_value (py_slice p 32 36) = 20"
    using snapshot_fields_decode [OF p] by simp
  with p show ?thesis by auto
qed


section \<open>The digest string\<close>










section \<open>The mixer of the code and the mixer of the specification\<close>

lemma max32_mask: "(4294967295 :: int) = mask 32"
  by (simp add: mask_eq_exp_minus_1)

lemma rotate_left_uint:
  fixes w :: "32 word"
  assumes "0 < n" "n < 32"
  shows "rotate_left default_config (uint w) n = uint (word_rotl n w)"
proof (rule bit_eqI)
  fix k
  show "bit (rotate_left default_config (uint w) n) k = bit (uint (word_rotl n w)) k"
  proof (cases "k < n")
    case True
    with assms have "(k + (32 - n)) mod 32 = k + (32 - n)" by simp
    with True assms show ?thesis
      by (simp add: rotate_left_def default_config_simps max32_mask bit_simps)
         (metis add.commute)
  next
    case False
    show ?thesis
    proof (cases "k < 32")
      case k: True
      with False assms have "(k + (32 - n)) mod 32 = k - n"
        by (simp add: mod_if)
      with False k assms show ?thesis
        by (auto simp: rotate_left_def default_config_simps max32_mask bit_simps
            dest: bit_imp_le_length)
    next
      case k: False
      then show ?thesis
        by (simp add: rotate_left_def default_config_simps max32_mask bit_simps)
    qed
  qed
qed

lemma masked_add:
  "(a + b) AND 4294967295 = uint (word_of_int a + word_of_int b :: 32 word)"
proof -
  have "uint (word_of_int a + word_of_int b :: 32 word) = take_bit 32 (a + b)"
    by (simp add: uint_word_arith_bintrs uint_word_of_int_eq take_bit_add)
  also have "\<dots> = (a + b) AND mask 32"
    by (rule take_bit_eq_mask)
  also have "\<dots> = (a + b) AND 4294967295"
    by (simp only: max32_mask)
  finally show ?thesis by (rule sym)
qed

lemma masked_add_uint_left:
  "(uint (w :: 32 word) + b) AND 4294967295 = uint (w + word_of_int b)"
  using masked_add [of "uint w" b] by (simp only: word_of_int_uint)

lemma hash_round_words:
  fixes w0 w1 w2 w3 x0 x1 :: "32 word"
  assumes "word_of_int s0 = w0" "word_of_int s1 = w1" "s2 = uint w2" "word_of_int s3 = w3"
  shows "hash_round default_config (s0, s1, s2, s3) (uint x0) (uint x1)
     = (case spec_round (w0, w1, w2, w3) x0 x1 of
          (a, b, c, d) \<Rightarrow> (uint a, uint b, uint c, uint d))"
proof -
  define a where "a = rotl32 ((w0 + x0) XOR w2) 7"
  define b where "b = rotl32 ((x0 XOR w1) + w3) 11"
  define c where "c = rotl32 ((w2 + x1) XOR a) 13"
  define d where "d = rotl32 ((w3 XOR x1) + b) 17"
  have spec: "spec_round (w0, w1, w2, w3) x0 x1 = (a, b, c, d)"
    by (simp add: spec_round_def Let_def a_def b_def c_def d_def)
  have r0: "rotate_left default_config (((s0 + uint x0) AND MAX_32BIT default_config) XOR s2) 7 = uint a"
  proof -
    have "(s0 + uint x0) AND 4294967295 = uint (w0 + x0)"
      using masked_add [of s0 "uint x0"] assms(1) by simp
    then have "((s0 + uint x0) AND 4294967295) XOR s2 = uint ((w0 + x0) XOR w2)"
      using assms(3) by (simp add: uint_xor)
    then show ?thesis
      by (simp add: rotate_left_uint a_def rotl32_def default_config_simps)
  qed
  have r1: "rotate_left default_config (((uint x0 XOR s1) + s3) AND MAX_32BIT default_config) 11 = uint b"
  proof -
    have "word_of_int (uint x0 XOR s1) = x0 XOR w1"
      using assms(2) by (metis word_of_int_uint word_wi_log_defs(4))
    then have "((uint x0 XOR s1) + s3) AND 4294967295 = uint ((x0 XOR w1) + w3)"
      using masked_add [of "uint x0 XOR s1" s3] assms(4) by simp
    then show ?thesis
      by (simp add: rotate_left_uint b_def rotl32_def default_config_simps)
  qed
  have r2: "rotate_left default_config (((s2 + uint x1) AND MAX_32BIT default_config) XOR uint a) 13 = uint c"
  proof -
    have "(s2 + uint x1) AND 4294967295 = uint (w2 + x1)"
      using masked_add [of s2 "uint x1"] assms(3) by simp
    then have "((s2 + uint x1) AND 4294967295) XOR uint a = uint ((w2 + x1) XOR a)"
      by (simp add: uint_xor)
    then show ?thesis
      by (simp add: rotate_left_uint c_def rotl32_def default_config_simps)
  qed
  have r3: "rotate_left default_config (((s3 XOR uint x1) + uint b) AND MAX_32BIT default_config) 17 = uint d"
  proof -
    have "word_of_int (s3 XOR uint x1) = w3 XOR x1"
      using assms(4) by (metis word_of_int_uint word_wi_log_defs(4))
    then have "((s3 XOR uint x1) + uint b) AND 4294967295 = uint ((w3 XOR x1) + b)"
      using masked_add [of "s3 XOR uint x1" "uint b"] by simp
    then show ?thesis
      by (simp add: rotate_left_uint d_def rotl32_def default_config_simps)
  qed
  show ?thesis
    by (simp only: hash_round_def Let_def prod.case r0 r1 r2 r3 spec)
qed


lemma hash_round_state_ints:
  fixes w0 w1 w2 w3 x0 x1 :: "32 word"
  assumes "word_of_int s0 = w0" "word_of_int s1 = w1" "s2 = uint w2" "word_of_int s3 = w3"
  shows "hash_round default_config (s0, s1, s2, s3) (uint x0) (uint x1)
     = state_ints (spec_round (w0, w1, w2, w3) x0 x1)"
  using hash_round_words [OF assms, of x0 x1] by (simp add: state_ints_def)

lemma le_value_range:
  "list_all (\<lambda>b. 0 \<le> b \<and> b < 256) bs \<Longrightarrow> 0 \<le> le_value bs \<and> le_value bs < 256 ^ length bs"
  by (induction bs) auto

lemma le_value_word:
  assumes "list_all (\<lambda>b. 0 \<le> b \<and> b < 256) bs" "length bs = 4"
  shows "uint (word_of_int (le_value bs) :: 32 word) = le_value bs"
proof -
  from le_value_range [OF assms(1)] assms(2)
  have "0 \<le> le_value bs" "le_value bs < 2 ^ 32" by simp_all
  then show ?thesis
    by (simp add: uint_word_of_int_eq take_bit_int_eq_self)
qed

lemma list_all_drop: "list_all P xs \<Longrightarrow> list_all P (drop n xs)"
  by (auto simp: list_all_iff dest: in_set_dropD)

lemma hash_loop_step:
  fixes w0 w1 w2 w3 :: "32 word"
  assumes i: "i < length xs div 8"
    and bytes: "list_all (\<lambda>b. 0 \<le> b \<and> b < 256) xs"
    and rel: "word_of_int s0 = w0" "word_of_int s1 = w1" "s2 = uint w2" "word_of_int s3 = w3"
  shows "hash_loop default_config xs (i # idx) (s0, s1, s2, s3)
     = hash_loop default_config xs idx
         (state_ints (spec_absorb (w0, w1, w2, w3) (take 8 (drop (i * 8) xs))))"
proof -
  let ?b = "take 8 (drop (i * 8) xs)"
  have len: "length ?b = 8" using i by simp
  have rng: "list_all (\<lambda>b. 0 \<le> b \<and> b < 256) ?b"
    using bytes by (intro list_all_take list_all_drop)
  have b: "bytes_of_list ?b = Inr ?b"
    using rng by (simp add: bytes_of_list_def)
  have u: "unpack_II ?b = Inr (le_value (take 4 ?b), le_value (drop 4 ?b))"
    using len by (simp add: unpack_II_def)
  have v0: "uint (word_of_int (le_value (take 4 ?b)) :: 32 word) = le_value (take 4 ?b)"
  proof (rule le_value_word)
    show "list_all (\<lambda>b. 0 \<le> b \<and> b < 256) (take 4 ?b)"
      using rng by (rule list_all_take)
    show "length (take 4 ?b) = 4" using len by simp
  qed
  have v1: "uint (word_of_int (le_value (drop 4 ?b)) :: 32 word) = le_value (drop 4 ?b)"
  proof (rule le_value_word)
    show "list_all (\<lambda>b. 0 \<le> b \<and> b < 256) (drop 4 ?b)"
      using rng by (rule list_all_drop)
    show "length (drop 4 ?b) = 4" using len by simp
  qed
  have "hash_round default_config (s0, s1, s2, s3)
        (le_value (take 4 ?b)) (le_value (drop 4 ?b))
      = state_ints (spec_absorb (w0, w1, w2, w3) ?b)"
    using hash_round_state_ints [OF rel,
        of "word_of_int (le_value (take 4 ?b))" "word_of_int (le_value (drop 4 ?b))"]
    unfolding v0 v1 spec_absorb_def .
  then show ?thesis
    by (simp only: hash_loop_Cons b u sum.case prod.case)
qed

lemma hash_loop_state_ints:
  assumes "\<forall>i\<in>set idx. i < length xs div 8"
    and "list_all (\<lambda>b. 0 \<le> b \<and> b < 256) xs"
  shows "hash_loop default_config xs idx (state_ints wst)
     = Inr (state_ints (foldl spec_absorb wst (map (\<lambda>i. take 8 (drop (i * 8) xs)) idx)))"
  using assms
proof (induction idx arbitrary: wst)
  case Nil
  then show ?case by simp
next
  case (Cons i idx)
  obtain w0 w1 w2 w3 where w: "wst = (w0, w1, w2, w3)" by (cases wst) auto
  have i: "i < length xs div 8" using Cons.prems(1) by simp
  have "hash_loop default_config xs (i # idx) (uint w0, uint w1, uint w2, uint w3)
      = hash_loop default_config xs idx
          (state_ints (spec_absorb (w0, w1, w2, w3) (take 8 (drop (i * 8) xs))))"
    by (rule hash_loop_step [OF i Cons.prems(2)]) simp_all
  also have "\<dots> = Inr (state_ints (foldl spec_absorb
        (spec_absorb (w0, w1, w2, w3) (take 8 (drop (i * 8) xs)))
        (map (\<lambda>i. take 8 (drop (i * 8) xs)) idx)))"
    using Cons.IH Cons.prems by simp
  finally show ?case by (simp add: w state_ints_def)
qed


lemma masked_add_uint:
  "(uint (x :: 32 word) + uint y) AND MAX_32BIT default_config = uint (x + y)"
  using masked_add [of "uint x" "uint y"]
  by (simp only: word_of_int_uint default_config_simps)

lemma rotate_left_rotl32:
  "0 < n \<Longrightarrow> n < 32 \<Longrightarrow> rotate_left default_config (uint w) n = uint (rotl32 w n)"
  by (simp only: rotl32_def rotate_left_uint)

lemma uint_of_nat_32:
  assumes "len < 2 ^ 32"
  shows "uint (of_nat len :: 32 word) = int len"
proof -
  have "(of_nat len :: 32 word) = word_of_int (int len)" by simp
  then have "uint (of_nat len :: 32 word) = take_bit 32 (int len)"
    by (simp only: uint_word_of_int_eq) simp
  also have "\<dots> = int len"
    using assms by (simp add: take_bit_int_eq_self)
  finally show ?thesis .
qed

lemma hash_finish_words:
  fixes w0 w1 w2 w3 :: "32 word"
  assumes "len < 2 ^ 32"
  shows "hash_finish default_config (int len) (state_ints (w0, w1, w2, w3))
     = spec_output (spec_finish (of_nat len) (w0, w1, w2, w3))"
proof -
  define t0 where "t0 = w0 XOR of_nat len"
  define t1 where "t1 = w1 XOR t0"
  define t2 where "t2 = w2 + t1"
  define t3 where "t3 = w3 XOR t2"
  define r0 where "r0 = rotl32 t0 9"
  define r1 where "r1 = rotl32 t1 13"
  define r2 where "r2 = rotl32 t2 17"
  define r3 where "r3 = rotl32 t3 19"
  define o0 where "o0 = r0 + r2"
  define o1 where "o1 = r1 XOR r3"
  define o2 where "o2 = r2 + o0"
  define o3 where "o3 = r3 XOR o1"
  have spec: "spec_finish (of_nat len) (w0, w1, w2, w3) = (o0, o1, o2, o3)"
    by (simp add: spec_finish_def Let_def t0_def t1_def t2_def t3_def r0_def r1_def r2_def
        r3_def o0_def o1_def o2_def o3_def)
  have e0: "uint w0 XOR int len = uint t0"
    by (simp add: t0_def uint_xor uint_of_nat_32 [OF assms])
  have e1: "uint w1 XOR uint t0 = uint t1"
    by (simp add: t1_def uint_xor)
  have e2: "(uint w2 + uint t1) AND MAX_32BIT default_config = uint t2"
    by (simp only: t2_def masked_add_uint)
  have e3: "uint w3 XOR uint t2 = uint t3"
    by (simp add: t3_def uint_xor)
  have q0: "rotate_left default_config (uint t0) 9 = uint r0"
    by (simp add: r0_def rotate_left_rotl32)
  have q1: "rotate_left default_config (uint t1) 13 = uint r1"
    by (simp add: r1_def rotate_left_rotl32)
  have q2: "rotate_left default_config (uint t2) 17 = uint r2"
    by (simp add: r2_def rotate_left_rotl32)
  have q3: "rotate_left default_config (uint t3) 19 = uint r3"
    by (simp add: r3_def rotate_left_rotl32)
  have f0: "(uint r0 + uint r2) AND MAX_32BIT default_config = uint o0"
    by (simp only: o0_def masked_add_uint)
  have f1: "uint r1 XOR uint r3 = uint o1"
    by (simp add: o1_def uint_xor)
  have f2: "(uint r2 + uint o0) AND MAX_32BIT default_config = uint o2"
    by (simp only: o2_def masked_add_uint)
  have f3: "uint r3 XOR uint o1 = uint o3"
    by (simp add: o3_def uint_xor)
  have "hash_finish default_config (int len) (state_ints (w0, w1, w2, w3))
      = concat (map (\<lambda>s. int_to_le_bytes s 4) [uint o0, uint o1, uint o2, uint o3])"
    by (simp only: hash_finish_def state_ints_def Let_def prod.case
        e0 e1 e2 e3 q0 q1 q2 q3 f0 f1 f2 f3)
  also have "\<dots> = spec_output (o0, o1, o2, o3)"
    by (simp add: spec_output_def)
  finally show ?thesis by (simp only: spec)
qed

end
